theory Spec2Isabelle
  imports Complex_Main "HOL-Library.Multiset" "HOL-Library.AList" "HOL-Library.Log_Nat"
begin

section \<open>Values\<close>

text \<open>
  The aggregation functions of \<^verbatim>\<open>index.js\<close> work on timing values that are either a
  JavaScript number or \<^verbatim>\<open>null\<close>. A number is modelled by a rational (every finite
  double is one). \<open>None\<close> stands for \<^verbatim>\<open>null\<close>; in a raw sample it also stands for a
  field that is absent, since the code only ever tests such a field with
  \<^verbatim>\<open>v != null\<close>, which is false for both.

  The functions of the first sections are written with the exact sum and quotient of
  the rationals: they tell which values are added up and by what the sum is divided.
  The operators \<^verbatim>\<open>+\<close> and \<^verbatim>\<open>/\<close> of JavaScript round their result to a double; the
  section on double-precision arithmetic gives \<^verbatim>\<open>avg\<close> and \<^verbatim>\<open>calculateMetricsData\<close>
  with this rounding, and the properties that compare two computed means (the bounds of
  a mean, the order of the trials) are settled there. Overflow and NaN are outside the
  model.
\<close>

type_synonym jsnum = "rat option"

datatype error = TypeError

text \<open>The operator \<^verbatim>\<open>a - b\<close>: both operands go through ToNumber, which maps \<^verbatim>\<open>null\<close> to 0.\<close>

definition ToNumber :: "jsnum \<Rightarrow> rat" where
  "ToNumber v = (case v of None \<Rightarrow> 0 | Some x \<Rightarrow> x)"

definition js_sub :: "jsnum \<Rightarrow> jsnum \<Rightarrow> jsnum" where
  "js_sub a b = Some (ToNumber a - ToNumber b)"

text \<open>
  \<^verbatim>\<open>const avg = (arr) => (arr.length ? arr.reduce((a, b) => a + b, 0) / arr.length : null);\<close>
\<close>

definition avg :: "rat list \<Rightarrow> jsnum" where
  "avg arr =
     (if length arr \<noteq> 0 then Some (foldl (\<lambda>a b. a + b) 0 arr / of_nat (length arr))
      else None)"

text \<open>\<^verbatim>\<open>.filter(v => v != null)\<close>: the values that are left are numbers.\<close>

definition not_null :: "jsnum list \<Rightarrow> rat list" where
  "not_null vs = map the (filter (\<lambda>v. v \<noteq> None) vs)"

text \<open>
  \<^verbatim>\<open>s.replace(pat, repl)\<close> with a string pattern: the first occurrence is replaced.
\<close>

fun replace :: "string \<Rightarrow> string \<Rightarrow> string \<Rightarrow> string" where
  "replace [] pat repl = (if pat = [] then repl else [])"
| "replace (c # cs) pat repl =
     (if take (length pat) (c # cs) = pat then repl @ drop (length pat) (c # cs)
      else c # replace cs pat repl)"

section \<open>Double-precision arithmetic\<close>

text \<open>
  A JavaScript number is an IEEE 754 binary64 value. The finite ones are the rationals
  \<open>k * 2 ^ e\<close> with \<open>\<bar>k\<bar> < 2 ^ 53\<close> and \<open>- 1074 \<le> e\<close>; the operators \<^verbatim>\<open>+\<close> and \<^verbatim>\<open>/\<close> return the
  exact result rounded to the nearest of them, a tie going to the even significand.

  \<open>round_even\<close> rounds a rational to the nearest integer, ties to even. \<open>binade x\<close> is
  the exponent of the power of two at or below \<open>\<bar>x\<bar>\<close>, and \<open>quantum x\<close> is the distance
  between neighbouring doubles there: 52 binary places below the leading bit, and
  \<open>2 ^ - 1074\<close> throughout the subnormal range. \<open>round_double\<close> rounds to the nearest
  multiple of the quantum. Where JavaScript yields \<^verbatim>\<open>Infinity\<close> for a result beyond the
  largest double (about \<open>1.8 * 10 ^ 308\<close>), \<open>round_double\<close> yields the rounded rational;
  the two agree as long as every result is a double in the sense of \<open>representable\<close>
  below. NaN, which arises from infinities only, and the sign of zero have no counterpart
  here.
\<close>

definition round_even :: "rat \<Rightarrow> int" where
  "round_even x =
     (let f = \<lfloor>x\<rfloor>; r = x - of_int f
      in if r < 1 / 2 then f else if 1 / 2 < r then f + 1 else if even f then f else f + 1)"

definition binade :: "rat \<Rightarrow> int" where
  "binade x =
     (if 1 \<le> \<bar>x\<bar> then bitlen \<lfloor>\<bar>x\<bar>\<rfloor> - 1 else - bitlen (\<lceil>1 / \<bar>x\<bar>\<rceil> - 1))"

definition quantum :: "rat \<Rightarrow> rat" where
  "quantum x = 2 powi (max (binade x) (- 1022) - 52)"

definition round_double :: "rat \<Rightarrow> rat" where
  "round_double x = (if x = 0 then 0 else of_int (round_even (x / quantum x)) * quantum x)"

text \<open>
  The rationals that are doubles are the ones that rounding leaves as they are and whose
  exponent is at most 1023, so that their magnitude is below \<open>2 ^ 1024\<close>.
\<close>

definition representable :: "rat \<Rightarrow> bool" where
  "representable x \<longleftrightarrow> round_double x = x \<and> binade x \<le> 1023"

text \<open>The operators \<^verbatim>\<open>a + b\<close> and \<^verbatim>\<open>a / b\<close> on numbers.\<close>

definition fadd :: "rat \<Rightarrow> rat \<Rightarrow> rat" where
  "fadd a b = round_double (a + b)"

definition fdiv :: "rat \<Rightarrow> rat \<Rightarrow> rat" where
  "fdiv a b = round_double (a / b)"

text \<open>
  \<^verbatim>\<open>const avg = (arr) => (arr.length ? arr.reduce((a, b) => a + b, 0) / arr.length : null);\<close>
  with the rounding of every addition of the \<^verbatim>\<open>reduce\<close> and of the division. The
  length of an array is below \<open>2 ^ 32\<close> and so a double.
\<close>

definition avg_double :: "rat list \<Rightarrow> jsnum" where
  "avg_double arr =
     (if length arr \<noteq> 0 then Some (fdiv (foldl (\<lambda>a b. fadd a b) 0 arr) (of_nat (length arr)))
      else None)"

text \<open>
  The \<^verbatim>\<open>reduce\<close> over an array is exact when the exact result of every addition is a
  double: then no addition rounds and none overflows. \<open>exact_from a arr\<close> says this of the
  additions that start from the accumulator \<open>a\<close>.
\<close>

fun exact_from :: "rat \<Rightarrow> rat list \<Rightarrow> bool" where
  "exact_from a [] = True"
| "exact_from a (b # arr) = (representable (a + b) \<and> exact_from (a + b) arr)"

definition sum_exact :: "rat list \<Rightarrow> bool" where
  "sum_exact arr = exact_from 0 arr"

section \<open>The result tree\<close>

record RawSample =
  browser_start_time :: jsnum
  fcp :: jsnum
  dom_interactive :: jsnum
  dom_content_loaded :: jsnum
  load :: jsnum

text \<open>
  The object \<^verbatim>\<open>{ cold: [...], warm: [...] }\<close>. A key that is missing reads as
  \<^verbatim>\<open>undefined\<close>, here \<open>None\<close>.
\<close>

record CacheBuckets =
  cold :: "RawSample list option"
  warm :: "RawSample list option"

text \<open>
  The nested objects are walked with \<^verbatim>\<open>Object.entries\<close>, which lists the keys that
  are present in insertion order: each level is an association list. The keys of an
  object are distinct.
\<close>

type_synonym Sites = "(string \<times> CacheBuckets) list"
type_synonym JsBuckets = "(string \<times> Sites) list"
type_synonym ResultTree = "(string \<times> JsBuckets) list"

section \<open>calculateMetricsData\<close>

record MetricsEntry =
  label :: string
  browser_start_time :: jsnum
  fcp :: jsnum
  dom_interactive :: jsnum
  dom_content_loaded :: jsnum
  load :: jsnum

record MetricsData =
  cold :: "MetricsEntry list"
  warm :: "MetricsEntry list"

definition make_label :: "string \<Rightarrow> string \<Rightarrow> string \<Rightarrow> string" where
  "make_label browser jsLabel url =
     browser @ '' '' @ jsLabel @ '' '' @ replace (replace url ''https://'' []) ''/'' []"

definition coldMetrics :: "string \<Rightarrow> RawSample list \<Rightarrow> MetricsEntry" where
  "coldMetrics lbl c =
     \<lparr>label = lbl,
      browser_start_time = avg (not_null (map RawSample.browser_start_time c)),
      fcp = avg (not_null (map RawSample.fcp c)),
      dom_interactive = avg (not_null (map RawSample.dom_interactive c)),
      dom_content_loaded = avg (not_null (map RawSample.dom_content_loaded c)),
      load = avg (not_null (map RawSample.load c))\<rparr>"

definition warmMetrics :: "string \<Rightarrow> RawSample list \<Rightarrow> MetricsEntry" where
  "warmMetrics lbl w =
     \<lparr>label = lbl,
      browser_start_time = None,
      fcp = avg (not_null (map RawSample.fcp w)),
      dom_interactive = avg (not_null (map RawSample.dom_interactive w)),
      dom_content_loaded = avg (not_null (map RawSample.dom_content_loaded w)),
      load = avg (not_null (map RawSample.load w))\<rparr>"

text \<open>
  The body of the innermost loop. \<^verbatim>\<open>cacheBuckets.cold.map\<close> throws a TypeError when the
  key \<^verbatim>\<open>cold\<close> is missing, and so does \<^verbatim>\<open>cacheBuckets.warm.map\<close>; the exception leaves
  the function, and the arrays built so far are lost.
\<close>

definition metrics_site ::
  "string \<Rightarrow> string \<Rightarrow> string \<Rightarrow> CacheBuckets \<Rightarrow> MetricsData \<Rightarrow> error + MetricsData" where
  "metrics_site browser jsLabel url cacheBuckets acc =
     (case CacheBuckets.cold cacheBuckets of
        None \<Rightarrow> Inl TypeError
      | Some c \<Rightarrow>
          (case CacheBuckets.warm cacheBuckets of
             None \<Rightarrow> Inl TypeError
           | Some w \<Rightarrow>
               Inr \<lparr>cold = MetricsData.cold acc @ [coldMetrics (make_label browser jsLabel url) c],
                    warm = MetricsData.warm acc @ [warmMetrics (make_label browser jsLabel url) w]\<rparr>))"

fun metrics_sites ::
  "string \<Rightarrow> string \<Rightarrow> Sites \<Rightarrow> MetricsData \<Rightarrow> error + MetricsData" where
  "metrics_sites browser jsLabel [] acc = Inr acc"
| "metrics_sites browser jsLabel ((url, cacheBuckets) # rest) acc =
     (case metrics_site browser jsLabel url cacheBuckets acc of
        Inl e \<Rightarrow> Inl e
      | Inr acc' \<Rightarrow> metrics_sites browser jsLabel rest acc')"

fun metrics_js :: "string \<Rightarrow> JsBuckets \<Rightarrow> MetricsData \<Rightarrow> error + MetricsData" where
  "metrics_js browser [] acc = Inr acc"
| "metrics_js browser ((jsLabel, sites) # rest) acc =
     (case metrics_sites browser jsLabel sites acc of
        Inl e \<Rightarrow> Inl e
      | Inr acc' \<Rightarrow> metrics_js browser rest acc')"

fun metrics_browsers :: "ResultTree \<Rightarrow> MetricsData \<Rightarrow> error + MetricsData" where
  "metrics_browsers [] acc = Inr acc"
| "metrics_browsers ((browser, jsBuckets) # rest) acc =
     (case metrics_js browser jsBuckets acc of
        Inl e \<Rightarrow> Inl e
      | Inr acc' \<Rightarrow> metrics_browsers rest acc')"

definition calculateMetricsData :: "ResultTree \<Rightarrow> error + MetricsData" where
  "calculateMetricsData data = metrics_browsers data \<lparr>cold = [], warm = []\<rparr>"

section \<open>calculateMetricsData in double precision\<close>

text \<open>
  The function once more, with the mean function as a parameter \<open>av\<close> in the place of
  every call of \<^verbatim>\<open>avg\<close>. With \<open>avg\<close> it is \<open>calculateMetricsData\<close> above; with
  \<open>avg_double\<close> it is the function as JavaScript computes it.
\<close>

definition coldMetrics_by :: "(rat list \<Rightarrow> jsnum) \<Rightarrow> string \<Rightarrow> RawSample list \<Rightarrow> MetricsEntry" where
  "coldMetrics_by av lbl c =
     \<lparr>label = lbl,
      browser_start_time = av (not_null (map RawSample.browser_start_time c)),
      fcp = av (not_null (map RawSample.fcp c)),
      dom_interactive = av (not_null (map RawSample.dom_interactive c)),
      dom_content_loaded = av (not_null (map RawSample.dom_content_loaded c)),
      load = av (not_null (map RawSample.load c))\<rparr>"

definition warmMetrics_by :: "(rat list \<Rightarrow> jsnum) \<Rightarrow> string \<Rightarrow> RawSample list \<Rightarrow> MetricsEntry" where
  "warmMetrics_by av lbl w =
     \<lparr>label = lbl,
      browser_start_time = None,
      fcp = av (not_null (map RawSample.fcp w)),
      dom_interactive = av (not_null (map RawSample.dom_interactive w)),
      dom_content_loaded = av (not_null (map RawSample.dom_content_loaded w)),
      load = av (not_null (map RawSample.load w))\<rparr>"

definition metrics_site_by ::
  "(rat list \<Rightarrow> jsnum) \<Rightarrow> string \<Rightarrow> string \<Rightarrow> string \<Rightarrow> CacheBuckets \<Rightarrow> MetricsData \<Rightarrow>
   error + MetricsData" where
  "metrics_site_by av browser jsLabel url cacheBuckets acc =
     (case CacheBuckets.cold cacheBuckets of
        None \<Rightarrow> Inl TypeError
      | Some c \<Rightarrow>
          (case CacheBuckets.warm cacheBuckets of
             None \<Rightarrow> Inl TypeError
           | Some w \<Rightarrow>
               Inr \<lparr>MetricsData.cold =
                      MetricsData.cold acc @ [coldMetrics_by av (make_label browser jsLabel url) c],
                    MetricsData.warm =
                      MetricsData.warm acc @ [warmMetrics_by av (make_label browser jsLabel url) w]\<rparr>))"

fun metrics_sites_by ::
  "(rat list \<Rightarrow> jsnum) \<Rightarrow> string \<Rightarrow> string \<Rightarrow> Sites \<Rightarrow> MetricsData \<Rightarrow> error + MetricsData" where
  "metrics_sites_by av browser jsLabel [] acc = Inr acc"
| "metrics_sites_by av browser jsLabel ((url, cacheBuckets) # rest) acc =
     (case metrics_site_by av browser jsLabel url cacheBuckets acc of
        Inl e \<Rightarrow> Inl e
      | Inr acc' \<Rightarrow> metrics_sites_by av browser jsLabel rest acc')"

fun metrics_js_by ::
  "(rat list \<Rightarrow> jsnum) \<Rightarrow> string \<Rightarrow> JsBuckets \<Rightarrow> MetricsData \<Rightarrow> error + MetricsData" where
  "metrics_js_by av browser [] acc = Inr acc"
| "metrics_js_by av browser ((jsLabel, sites) # rest) acc =
     (case metrics_sites_by av browser jsLabel sites acc of
        Inl e \<Rightarrow> Inl e
      | Inr acc' \<Rightarrow> metrics_js_by av browser rest acc')"

fun metrics_browsers_by ::
  "(rat list \<Rightarrow> jsnum) \<Rightarrow> ResultTree \<Rightarrow> MetricsData \<Rightarrow> error + MetricsData" where
  "metrics_browsers_by av [] acc = Inr acc"
| "metrics_browsers_by av ((browser, jsBuckets) # rest) acc =
     (case metrics_js_by av browser jsBuckets acc of
        Inl e \<Rightarrow> Inl e
      | Inr acc' \<Rightarrow> metrics_browsers_by av rest acc')"

definition calculateMetricsData_by :: "(rat list \<Rightarrow> jsnum) \<Rightarrow> ResultTree \<Rightarrow> error + MetricsData" where
  "calculateMetricsData_by av data =
     metrics_browsers_by av data \<lparr>MetricsData.cold = [], MetricsData.warm = []\<rparr>"

section \<open>calculateCumulativeStats\<close>

text \<open>The ten local arrays that the loop over one browser fills with \<^verbatim>\<open>push\<close>.\<close>

record Pools =
  allFcps :: "rat list"
  allLoads :: "rat list"
  jsOnFcps :: "rat list"
  jsOnLoads :: "rat list"
  jsOffFcps :: "rat list"
  jsOffLoads :: "rat list"
  coldFcps :: "rat list"
  coldLoads :: "rat list"
  warmFcps :: "rat list"
  warmLoads :: "rat list"

definition empty_pools :: Pools where
  "empty_pools =
     \<lparr>allFcps = [], allLoads = [], jsOnFcps = [], jsOnLoads = [], jsOffFcps = [],
      jsOffLoads = [], coldFcps = [], coldLoads = [], warmFcps = [], warmLoads = []\<rparr>"

record Stat =
  fcp :: jsnum
  load :: jsnum

record BrowserStats =
  overall :: Stat
  jsOn :: Stat
  jsOff :: Stat
  cold :: Stat
  warm :: Stat

type_synonym CumulativeStats = "(string \<times> BrowserStats) list"

text \<open>
  The body of the loop over the sites of one JS bucket. Every label other than
  \<^verbatim>\<open>'JS_on'\<close> takes the \<^verbatim>\<open>else\<close> branch.
\<close>

definition collect_site :: "string \<Rightarrow> CacheBuckets \<Rightarrow> Pools \<Rightarrow> error + Pools" where
  "collect_site jsLabel cacheBuckets p =
     (case CacheBuckets.cold cacheBuckets of
        None \<Rightarrow> Inl TypeError
      | Some c \<Rightarrow>
          (case CacheBuckets.warm cacheBuckets of
             None \<Rightarrow> Inl TypeError
           | Some w \<Rightarrow>
               (let coldFcpVals = not_null (map RawSample.fcp c);
                    coldLoadVals = not_null (map RawSample.load c);
                    warmFcpVals = not_null (map RawSample.fcp w);
                    warmLoadVals = not_null (map RawSample.load w);
                    p1 = p\<lparr>allFcps := allFcps p @ coldFcpVals @ warmFcpVals,
                           allLoads := allLoads p @ coldLoadVals @ warmLoadVals,
                           coldFcps := coldFcps p @ coldFcpVals,
                           coldLoads := coldLoads p @ coldLoadVals,
                           warmFcps := warmFcps p @ warmFcpVals,
                           warmLoads := warmLoads p @ warmLoadVals\<rparr>
                in Inr (if jsLabel = ''JS_on''
                        then p1\<lparr>jsOnFcps := jsOnFcps p1 @ coldFcpVals @ warmFcpVals,
                                jsOnLoads := jsOnLoads p1 @ coldLoadVals @ warmLoadVals\<rparr>
                        else p1\<lparr>jsOffFcps := jsOffFcps p1 @ coldFcpVals @ warmFcpVals,
                                jsOffLoads := jsOffLoads p1 @ coldLoadVals @ warmLoadVals\<rparr>))))"

fun collect_sites :: "string \<Rightarrow> Sites \<Rightarrow> Pools \<Rightarrow> error + Pools" where
  "collect_sites jsLabel [] p = Inr p"
| "collect_sites jsLabel ((url, cacheBuckets) # rest) p =
     (case collect_site jsLabel cacheBuckets p of
        Inl e \<Rightarrow> Inl e
      | Inr p' \<Rightarrow> collect_sites jsLabel rest p')"

fun collect_js :: "JsBuckets \<Rightarrow> Pools \<Rightarrow> error + Pools" where
  "collect_js [] p = Inr p"
| "collect_js ((jsLabel, sites) # rest) p =
     (case collect_sites jsLabel sites p of
        Inl e \<Rightarrow> Inl e
      | Inr p' \<Rightarrow> collect_js rest p')"

text \<open>
  The entry \<^verbatim>\<open>stats[browser]\<close> once the ten assignments after the loop have replaced
  every placeholder 0 of its initial value.
\<close>

definition browser_stats :: "Pools \<Rightarrow> BrowserStats" where
  "browser_stats p =
     \<lparr>overall = \<lparr>fcp = avg (allFcps p), load = avg (allLoads p)\<rparr>,
      jsOn = \<lparr>fcp = avg (jsOnFcps p), load = avg (jsOnLoads p)\<rparr>,
      jsOff = \<lparr>fcp = avg (jsOffFcps p), load = avg (jsOffLoads p)\<rparr>,
      cold = \<lparr>fcp = avg (coldFcps p), load = avg (coldLoads p)\<rparr>,
      warm = \<lparr>fcp = avg (warmFcps p), load = avg (warmLoads p)\<rparr>\<rparr>"

fun calculateCumulativeStats :: "ResultTree \<Rightarrow> error + CumulativeStats" where
  "calculateCumulativeStats [] = Inr []"
| "calculateCumulativeStats ((browser, jsBuckets) # rest) =
     (case collect_js jsBuckets empty_pools of
        Inl e \<Rightarrow> Inl e
      | Inr p \<Rightarrow>
          (case calculateCumulativeStats rest of
             Inl e \<Rightarrow> Inl e
           | Inr stats \<Rightarrow> Inr ((browser, browser_stats p) # stats)))"

section \<open>calculateDeltas\<close>

record PerBrowser =
  Chrome :: Stat
  Firefox :: Stat

record Deltas =
  jsOff :: PerBrowser
  warmCache :: PerBrowser
  firefoxVsChrome :: Stat

text \<open>
  The object that the function returns, from the entries \<^verbatim>\<open>stats.Chrome\<close> and
  \<^verbatim>\<open>stats.Firefox\<close>. Reading a property of an entry that is missing, so of
  \<^verbatim>\<open>undefined\<close>, throws a TypeError.
\<close>

definition deltas_of :: "BrowserStats \<Rightarrow> BrowserStats \<Rightarrow> Deltas" where
  "deltas_of c f =
     \<lparr>jsOff =
        \<lparr>Chrome =
           \<lparr>fcp = js_sub (Stat.fcp (BrowserStats.jsOff c)) (Stat.fcp (jsOn c)),
            load = js_sub (Stat.load (BrowserStats.jsOff c)) (Stat.load (jsOn c))\<rparr>,
         Firefox =
           \<lparr>fcp = js_sub (Stat.fcp (BrowserStats.jsOff f)) (Stat.fcp (jsOn f)),
            load = js_sub (Stat.load (BrowserStats.jsOff f)) (Stat.load (jsOn f))\<rparr>\<rparr>,
      warmCache =
        \<lparr>Chrome =
           \<lparr>fcp = js_sub (Stat.fcp (BrowserStats.warm c)) (Stat.fcp (BrowserStats.cold c)),
            load = js_sub (Stat.load (BrowserStats.warm c)) (Stat.load (BrowserStats.cold c))\<rparr>,
         Firefox =
           \<lparr>fcp = js_sub (Stat.fcp (BrowserStats.warm f)) (Stat.fcp (BrowserStats.cold f)),
            load = js_sub (Stat.load (BrowserStats.warm f)) (Stat.load (BrowserStats.cold f))\<rparr>\<rparr>,
      firefoxVsChrome =
        \<lparr>fcp = js_sub (Stat.fcp (overall f)) (Stat.fcp (overall c)),
         load = js_sub (Stat.load (overall f)) (Stat.load (overall c))\<rparr>\<rparr>"

definition calculateDeltas :: "CumulativeStats \<Rightarrow> error + Deltas" where
  "calculateDeltas stats =
     (case map_of stats ''Chrome'' of
        None \<Rightarrow> Inl TypeError
      | Some c \<Rightarrow>
          (case map_of stats ''Firefox'' of
             None \<Rightarrow> Inl TypeError
           | Some f \<Rightarrow> Inr (deltas_of c f)))"

section \<open>The functions on a store\<close>

text \<open>
  JavaScript objects and arrays are mutable and shared by reference. To state that the
  three functions leave their input alone, the input is laid out in a store: a list of
  cells, the address of a cell being its position. An object is a cell \<open>Obj\<close> with
  its properties in insertion order, an array is a cell \<open>Arr\<close>, and a value is a
  number, null, or a reference to a cell. The arrays and the object that a function
  creates and then changes (\<^verbatim>\<open>coldData\<close>, \<^verbatim>\<open>warmData\<close>, the ten pools, \<^verbatim>\<open>stats\<close>) are
  cells too, allocated behind the cells that exist, with their contents held by value.
  Arrays and objects that are created and never changed afterwards (the results of
  \<^verbatim>\<open>Object.entries\<close>, \<^verbatim>\<open>map\<close> and \<^verbatim>\<open>filter\<close>, the entry literals) are plain values.

  A function on the store returns \<open>None\<close> when the cells it reads are not laid out as
  a result tree (a number where an object is expected, for instance): that case is
  outside the model.
\<close>

datatype val = Num rat | Null | Ref nat

datatype cell =
  Obj "(string \<times> val) list"
| Arr "val list"
| Entries "MetricsEntry list"
| Nums "rat list"
| StatsObj "(string \<times> BrowserStats) list"

type_synonym store = "cell list"

definition alloc :: "cell \<Rightarrow> store \<Rightarrow> nat \<times> store" where
  "alloc c h = (length h, h @ [c])"

definition cell_at :: "store \<Rightarrow> val \<Rightarrow> cell option" where
  "cell_at h v = (case v of Ref a \<Rightarrow> (if a < length h then Some (h ! a) else None) | _ \<Rightarrow> None)"

text \<open>
  Reading the input: a sample object, an array of samples, the entries of an object
  (whose keys are distinct), the two cache states of a leaf, and the levels of the tree.
\<close>

definition read_num :: "val \<Rightarrow> jsnum option" where
  "read_num v = (case v of Num x \<Rightarrow> Some (Some x) | Null \<Rightarrow> Some None | Ref a \<Rightarrow> None)"

definition read_field :: "(string \<times> val) list \<Rightarrow> string \<Rightarrow> jsnum option" where
  "read_field ps k = (case map_of ps k of None \<Rightarrow> Some None | Some v \<Rightarrow> read_num v)"

definition read_sample :: "store \<Rightarrow> val \<Rightarrow> RawSample option" where
  "read_sample h v =
     (case cell_at h v of
        Some (Obj ps) \<Rightarrow>
          (case (read_field ps ''browser_start_time'', read_field ps ''fcp'',
                 read_field ps ''dom_interactive'', read_field ps ''dom_content_loaded'',
                 read_field ps ''load'') of
             (Some b, Some f, Some i, Some c, Some l) \<Rightarrow>
               Some \<lparr>RawSample.browser_start_time = b, RawSample.fcp = f,
                     RawSample.dom_interactive = i, RawSample.dom_content_loaded = c,
                     RawSample.load = l\<rparr>
           | _ \<Rightarrow> None)
      | _ \<Rightarrow> None)"

definition read_samples :: "store \<Rightarrow> val \<Rightarrow> RawSample list option" where
  "read_samples h v =
     (case cell_at h v of Some (Arr vs) \<Rightarrow> those (map (read_sample h) vs) | _ \<Rightarrow> None)"

definition read_object :: "store \<Rightarrow> val \<Rightarrow> (string \<times> val) list option" where
  "read_object h v =
     (case cell_at h v of
        Some (Obj ps) \<Rightarrow> (if distinct (map fst ps) then Some ps else None)
      | _ \<Rightarrow> None)"

definition read_state :: "store \<Rightarrow> (string \<times> val) list \<Rightarrow> string \<Rightarrow> RawSample list option option" where
  "read_state h ps k =
     (case map_of ps k of None \<Rightarrow> Some None | Some v \<Rightarrow> map_option Some (read_samples h v))"

definition read_buckets :: "store \<Rightarrow> val \<Rightarrow> CacheBuckets option" where
  "read_buckets h v =
     (case read_object h v of
        None \<Rightarrow> None
      | Some ps \<Rightarrow>
          (case (read_state h ps ''cold'', read_state h ps ''warm'') of
             (Some c, Some w) \<Rightarrow> Some \<lparr>CacheBuckets.cold = c, CacheBuckets.warm = w\<rparr>
           | _ \<Rightarrow> None))"

definition read_all ::
  "(store \<Rightarrow> val \<Rightarrow> 'a option) \<Rightarrow> store \<Rightarrow> (string \<times> val) list \<Rightarrow> (string \<times> 'a) list option" where
  "read_all rd h ps = those (map (\<lambda>(k, v). map_option (Pair k) (rd h v)) ps)"

definition read_entries ::
  "(store \<Rightarrow> val \<Rightarrow> 'a option) \<Rightarrow> store \<Rightarrow> val \<Rightarrow> (string \<times> 'a) list option" where
  "read_entries rd h v =
     (case read_object h v of None \<Rightarrow> None | Some ps \<Rightarrow> read_all rd h ps)"

definition read_sites :: "store \<Rightarrow> val \<Rightarrow> Sites option" where
  "read_sites = read_entries read_buckets"

definition read_js :: "store \<Rightarrow> val \<Rightarrow> JsBuckets option" where
  "read_js = read_entries read_sites"

definition read_tree :: "store \<Rightarrow> val \<Rightarrow> ResultTree option" where
  "read_tree = read_entries read_js"

text \<open>
  \<^verbatim>\<open>cacheBuckets.cold.map(r => r.f)\<close> for the fields \<^verbatim>\<open>f\<close> that are read: the samples
  of one cache state, or a TypeError when the key is missing.
\<close>

definition state_of :: "store \<Rightarrow> val \<Rightarrow> string \<Rightarrow> (error + RawSample list) option" where
  "state_of h v k =
     (case read_object h v of
        None \<Rightarrow> None
      | Some ps \<Rightarrow>
          (case map_of ps k of
             None \<Rightarrow> Some (Inl TypeError)
           | Some v' \<Rightarrow> map_option Inr (read_samples h v')))"

text \<open>\<^verbatim>\<open>arr.push(...)\<close> on a local array: the cell of the array is overwritten.\<close>

definition push_entry :: "nat \<Rightarrow> MetricsEntry \<Rightarrow> store \<Rightarrow> store" where
  "push_entry a e h =
     (if a < length h then (case h ! a of Entries es \<Rightarrow> h[a := Entries (es @ [e])] | _ \<Rightarrow> h)
      else h)"

definition push_nums :: "nat \<Rightarrow> rat list \<Rightarrow> store \<Rightarrow> store" where
  "push_nums a vs h =
     (if a < length h then (case h ! a of Nums xs \<Rightarrow> h[a := Nums (xs @ vs)] | _ \<Rightarrow> h)
      else h)"

definition entries_at :: "store \<Rightarrow> nat \<Rightarrow> MetricsEntry list" where
  "entries_at h a = (if a < length h then (case h ! a of Entries es \<Rightarrow> es | _ \<Rightarrow> []) else [])"

definition nums_at :: "store \<Rightarrow> nat \<Rightarrow> rat list" where
  "nums_at h a = (if a < length h then (case h ! a of Nums xs \<Rightarrow> xs | _ \<Rightarrow> []) else [])"

definition stats_at :: "store \<Rightarrow> nat \<Rightarrow> CumulativeStats" where
  "stats_at h a = (if a < length h then (case h ! a of StatsObj s \<Rightarrow> s | _ \<Rightarrow> []) else [])"

text \<open>\<^verbatim>\<open>stats[browser] = ...\<close> on the local object \<^verbatim>\<open>stats\<close>.\<close>

definition set_stats :: "nat \<Rightarrow> string \<Rightarrow> BrowserStats \<Rightarrow> store \<Rightarrow> store" where
  "set_stats a browser bs h =
     (if a < length h
      then (case h ! a of StatsObj s \<Rightarrow> h[a := StatsObj (AList.update browser bs s)] | _ \<Rightarrow> h)
      else h)"

subsection \<open>calculateMetricsData\<close>

definition metrics_site_st ::
  "string \<Rightarrow> string \<Rightarrow> string \<Rightarrow> val \<Rightarrow> nat \<Rightarrow> nat \<Rightarrow> store \<Rightarrow> (error + unit) option \<times> store" where
  "metrics_site_st browser jsLabel url cacheBuckets coldData warmData h =
     (case state_of h cacheBuckets ''cold'' of
        None \<Rightarrow> (None, h)
      | Some (Inl e) \<Rightarrow> (Some (Inl e), h)
      | Some (Inr c) \<Rightarrow>
          (let h1 = push_entry coldData (coldMetrics (make_label browser jsLabel url) c) h
           in case state_of h1 cacheBuckets ''warm'' of
                None \<Rightarrow> (None, h1)
              | Some (Inl e) \<Rightarrow> (Some (Inl e), h1)
              | Some (Inr w) \<Rightarrow>
                  (Some (Inr ()),
                   push_entry warmData (warmMetrics (make_label browser jsLabel url) w) h1)))"

fun metrics_sites_st ::
  "string \<Rightarrow> string \<Rightarrow> (string \<times> val) list \<Rightarrow> nat \<Rightarrow> nat \<Rightarrow> store \<Rightarrow> (error + unit) option \<times> store" where
  "metrics_sites_st browser jsLabel [] coldData warmData h = (Some (Inr ()), h)"
| "metrics_sites_st browser jsLabel ((url, cacheBuckets) # rest) coldData warmData h =
     (case metrics_site_st browser jsLabel url cacheBuckets coldData warmData h of
        (Some (Inr u), h') \<Rightarrow> metrics_sites_st browser jsLabel rest coldData warmData h'
      | (r, h') \<Rightarrow> (r, h'))"

fun metrics_js_st ::
  "string \<Rightarrow> (string \<times> val) list \<Rightarrow> nat \<Rightarrow> nat \<Rightarrow> store \<Rightarrow> (error + unit) option \<times> store" where
  "metrics_js_st browser [] coldData warmData h = (Some (Inr ()), h)"
| "metrics_js_st browser ((jsLabel, sites) # rest) coldData warmData h =
     (case read_object h sites of
        None \<Rightarrow> (None, h)
      | Some es \<Rightarrow>
          (case metrics_sites_st browser jsLabel es coldData warmData h of
             (Some (Inr u), h') \<Rightarrow> metrics_js_st browser rest coldData warmData h'
           | (r, h') \<Rightarrow> (r, h')))"

fun metrics_browsers_st ::
  "(string \<times> val) list \<Rightarrow> nat \<Rightarrow> nat \<Rightarrow> store \<Rightarrow> (error + unit) option \<times> store" where
  "metrics_browsers_st [] coldData warmData h = (Some (Inr ()), h)"
| "metrics_browsers_st ((browser, jsBuckets) # rest) coldData warmData h =
     (case read_object h jsBuckets of
        None \<Rightarrow> (None, h)
      | Some es \<Rightarrow>
          (case metrics_js_st browser es coldData warmData h of
             (Some (Inr u), h') \<Rightarrow> metrics_browsers_st rest coldData warmData h'
           | (r, h') \<Rightarrow> (r, h')))"

definition calculateMetricsData_st :: "val \<Rightarrow> store \<Rightarrow> (error + MetricsData) option \<times> store" where
  "calculateMetricsData_st data h =
     (let (coldData, h1) = alloc (Entries []) h;
          (warmData, h2) = alloc (Entries []) h1
      in case read_object h2 data of
           None \<Rightarrow> (None, h2)
         | Some es \<Rightarrow>
             (case metrics_browsers_st es coldData warmData h2 of
                (Some (Inr u), h3) \<Rightarrow>
                  (Some (Inr \<lparr>MetricsData.cold = entries_at h3 coldData,
                               MetricsData.warm = entries_at h3 warmData\<rparr>), h3)
              | (Some (Inl e), h3) \<Rightarrow> (Some (Inl e), h3)
              | (None, h3) \<Rightarrow> (None, h3)))"

text \<open>
  What a loop of \<^verbatim>\<open>calculateMetricsData\<close> leaves behind: the store from before the
  call followed by the two local arrays, which hold what the loop on values computes.
\<close>

definition metrics_post ::
  "store \<Rightarrow> error + MetricsData \<Rightarrow> (error + unit) option \<times> store \<Rightarrow> bool" where
  "metrics_post h0 pure res \<longleftrightarrow>
     (\<exists>c w. snd res = h0 @ [Entries c, Entries w] \<and>
        (case pure of
           Inl e \<Rightarrow> fst res = Some (Inl e)
         | Inr acc \<Rightarrow> fst res = Some (Inr ()) \<and> c = MetricsData.cold acc \<and> w = MetricsData.warm acc))"

subsection \<open>calculateCumulativeStats\<close>

text \<open>The addresses of the ten local arrays of one browser.\<close>

record PoolRefs =
  allFcps :: nat
  allLoads :: nat
  jsOnFcps :: nat
  jsOnLoads :: nat
  jsOffFcps :: nat
  jsOffLoads :: nat
  coldFcps :: nat
  coldLoads :: nat
  warmFcps :: nat
  warmLoads :: nat

definition collect_site_st ::
  "string \<Rightarrow> val \<Rightarrow> PoolRefs \<Rightarrow> store \<Rightarrow> (error + unit) option \<times> store" where
  "collect_site_st jsLabel cacheBuckets r h =
     (case state_of h cacheBuckets ''cold'' of
        None \<Rightarrow> (None, h)
      | Some (Inl e) \<Rightarrow> (Some (Inl e), h)
      | Some (Inr c) \<Rightarrow>
          (case state_of h cacheBuckets ''warm'' of
             None \<Rightarrow> (None, h)
           | Some (Inl e) \<Rightarrow> (Some (Inl e), h)
           | Some (Inr w) \<Rightarrow>
               (let coldFcpVals = not_null (map RawSample.fcp c);
                    coldLoadVals = not_null (map RawSample.load c);
                    warmFcpVals = not_null (map RawSample.fcp w);
                    warmLoadVals = not_null (map RawSample.load w);
                    h1 = push_nums (PoolRefs.allFcps r) (coldFcpVals @ warmFcpVals) h;
                    h2 = push_nums (PoolRefs.allLoads r) (coldLoadVals @ warmLoadVals) h1;
                    h3 = push_nums (PoolRefs.coldFcps r) coldFcpVals h2;
                    h4 = push_nums (PoolRefs.coldLoads r) coldLoadVals h3;
                    h5 = push_nums (PoolRefs.warmFcps r) warmFcpVals h4;
                    h6 = push_nums (PoolRefs.warmLoads r) warmLoadVals h5
                in (Some (Inr ()),
                    if jsLabel = ''JS_on''
                    then push_nums (PoolRefs.jsOnLoads r) (coldLoadVals @ warmLoadVals)
                           (push_nums (PoolRefs.jsOnFcps r) (coldFcpVals @ warmFcpVals) h6)
                    else push_nums (PoolRefs.jsOffLoads r) (coldLoadVals @ warmLoadVals)
                           (push_nums (PoolRefs.jsOffFcps r) (coldFcpVals @ warmFcpVals) h6)))))"

fun collect_sites_st ::
  "string \<Rightarrow> (string \<times> val) list \<Rightarrow> PoolRefs \<Rightarrow> store \<Rightarrow> (error + unit) option \<times> store" where
  "collect_sites_st jsLabel [] r h = (Some (Inr ()), h)"
| "collect_sites_st jsLabel ((url, cacheBuckets) # rest) r h =
     (case collect_site_st jsLabel cacheBuckets r h of
        (Some (Inr u), h') \<Rightarrow> collect_sites_st jsLabel rest r h'
      | (res, h') \<Rightarrow> (res, h'))"

fun collect_js_st ::
  "(string \<times> val) list \<Rightarrow> PoolRefs \<Rightarrow> store \<Rightarrow> (error + unit) option \<times> store" where
  "collect_js_st [] r h = (Some (Inr ()), h)"
| "collect_js_st ((jsLabel, sites) # rest) r h =
     (case read_object h sites of
        None \<Rightarrow> (None, h)
      | Some es \<Rightarrow>
          (case collect_sites_st jsLabel es r h of
             (Some (Inr u), h') \<Rightarrow> collect_js_st rest r h'
           | (res, h') \<Rightarrow> (res, h')))"

text \<open>The ten declarations \<^verbatim>\<open>const allFcps = []; ...\<close> in their order.\<close>

definition alloc_pools :: "store \<Rightarrow> PoolRefs \<times> store" where
  "alloc_pools h =
     (\<lparr>allFcps = length h, allLoads = length h + 1, jsOnFcps = length h + 2,
       jsOnLoads = length h + 3, jsOffFcps = length h + 4, jsOffLoads = length h + 5,
       coldFcps = length h + 6, coldLoads = length h + 7, warmFcps = length h + 8,
       warmLoads = length h + 9\<rparr>,
      h @ [Nums [], Nums [], Nums [], Nums [], Nums [], Nums [], Nums [], Nums [], Nums [], Nums []])"

definition zero_stats :: BrowserStats where
  "zero_stats =
     \<lparr>overall = \<lparr>fcp = Some 0, load = Some 0\<rparr>, jsOn = \<lparr>fcp = Some 0, load = Some 0\<rparr>,
      jsOff = \<lparr>fcp = Some 0, load = Some 0\<rparr>, cold = \<lparr>fcp = Some 0, load = Some 0\<rparr>,
      warm = \<lparr>fcp = Some 0, load = Some 0\<rparr>\<rparr>"

text \<open>The contents of the ten arrays, as the ten assignments after the loop read them.\<close>

definition pools_at :: "store \<Rightarrow> PoolRefs \<Rightarrow> Pools" where
  "pools_at h r =
     \<lparr>Pools.allFcps = nums_at h (PoolRefs.allFcps r), Pools.allLoads = nums_at h (PoolRefs.allLoads r),
      Pools.jsOnFcps = nums_at h (PoolRefs.jsOnFcps r), Pools.jsOnLoads = nums_at h (PoolRefs.jsOnLoads r),
      Pools.jsOffFcps = nums_at h (PoolRefs.jsOffFcps r), Pools.jsOffLoads = nums_at h (PoolRefs.jsOffLoads r),
      Pools.coldFcps = nums_at h (PoolRefs.coldFcps r), Pools.coldLoads = nums_at h (PoolRefs.coldLoads r),
      Pools.warmFcps = nums_at h (PoolRefs.warmFcps r), Pools.warmLoads = nums_at h (PoolRefs.warmLoads r)\<rparr>"

fun stats_browsers_st ::
  "(string \<times> val) list \<Rightarrow> nat \<Rightarrow> store \<Rightarrow> (error + unit) option \<times> store" where
  "stats_browsers_st [] stats h = (Some (Inr ()), h)"
| "stats_browsers_st ((browser, jsBuckets) # rest) stats h =
     (let h1 = set_stats stats browser zero_stats h;
          (r, h2) = alloc_pools h1
      in case read_object h2 jsBuckets of
           None \<Rightarrow> (None, h2)
         | Some es \<Rightarrow>
             (case collect_js_st es r h2 of
                (Some (Inr u), h3) \<Rightarrow>
                  stats_browsers_st rest stats
                    (set_stats stats browser (browser_stats (pools_at h3 r)) h3)
              | (res, h3) \<Rightarrow> (res, h3)))"

definition calculateCumulativeStats_st ::
  "val \<Rightarrow> store \<Rightarrow> (error + CumulativeStats) option \<times> store" where
  "calculateCumulativeStats_st data h =
     (let (stats, h1) = alloc (StatsObj []) h
      in case read_object h1 data of
           None \<Rightarrow> (None, h1)
         | Some es \<Rightarrow>
             (case stats_browsers_st es stats h1 of
                (Some (Inr u), h2) \<Rightarrow> (Some (Inr (stats_at h2 stats)), h2)
              | (Some (Inl e), h2) \<Rightarrow> (Some (Inl e), h2)
              | (None, h2) \<Rightarrow> (None, h2)))"

text \<open>
  The ten arrays as cells, their addresses when they start at \<open>n\<close>, and what the loops
  of \<^verbatim>\<open>calculateCumulativeStats\<close> leave behind.
\<close>

definition pool_cells :: "Pools \<Rightarrow> cell list" where
  "pool_cells p =
     [Nums (Pools.allFcps p), Nums (Pools.allLoads p), Nums (Pools.jsOnFcps p),
      Nums (Pools.jsOnLoads p), Nums (Pools.jsOffFcps p), Nums (Pools.jsOffLoads p),
      Nums (Pools.coldFcps p), Nums (Pools.coldLoads p), Nums (Pools.warmFcps p),
      Nums (Pools.warmLoads p)]"

definition pools_post ::
  "store \<Rightarrow> error + Pools \<Rightarrow> (error + unit) option \<times> store \<Rightarrow> bool" where
  "pools_post hp pure res \<longleftrightarrow>
     (\<exists>p. snd res = hp @ pool_cells p \<and>
        (case pure of
           Inl e \<Rightarrow> fst res = Some (Inl e)
         | Inr p' \<Rightarrow> fst res = Some (Inr ()) \<and> p = p'))"

definition refs_at :: "nat \<Rightarrow> PoolRefs" where
  "refs_at n =
     \<lparr>allFcps = n, allLoads = n + 1, jsOnFcps = n + 2, jsOnLoads = n + 3, jsOffFcps = n + 4,
      jsOffLoads = n + 5, coldFcps = n + 6, coldLoads = n + 7, warmFcps = n + 8,
      warmLoads = n + 9\<rparr>"

definition stats_post ::
  "store \<Rightarrow> CumulativeStats \<Rightarrow> error + CumulativeStats \<Rightarrow> (error + unit) option \<times> store \<Rightarrow> bool" where
  "stats_post h0 s pure res \<longleftrightarrow>
     (\<exists>s' junk. snd res = h0 @ StatsObj s' # junk \<and>
        (case pure of
           Inl e \<Rightarrow> fst res = Some (Inl e)
         | Inr rest \<Rightarrow> fst res = Some (Inr ()) \<and> s' = s @ rest))"

subsection \<open>calculateDeltas\<close>

definition read_stat :: "store \<Rightarrow> val \<Rightarrow> Stat option" where
  "read_stat h v =
     (case cell_at h v of
        Some (Obj ps) \<Rightarrow>
          (case (map_of ps ''fcp'', map_of ps ''load'') of
             (Some a, Some b) \<Rightarrow>
               (case (read_num a, read_num b) of
                  (Some x, Some y) \<Rightarrow> Some \<lparr>fcp = x, load = y\<rparr>
                | _ \<Rightarrow> None)
           | _ \<Rightarrow> None)
      | _ \<Rightarrow> None)"

definition read_group :: "store \<Rightarrow> (string \<times> val) list \<Rightarrow> string \<Rightarrow> Stat option" where
  "read_group h ps k = (case map_of ps k of None \<Rightarrow> None | Some v \<Rightarrow> read_stat h v)"

definition read_browser_stats :: "store \<Rightarrow> val \<Rightarrow> BrowserStats option" where
  "read_browser_stats h v =
     (case read_object h v of
        None \<Rightarrow> None
      | Some ps \<Rightarrow>
          (case (read_group h ps ''overall'', read_group h ps ''jsOn'', read_group h ps ''jsOff'',
                 read_group h ps ''cold'', read_group h ps ''warm'') of
             (Some a, Some n, Some f, Some c, Some w) \<Rightarrow>
               Some \<lparr>overall = a, jsOn = n, jsOff = f, cold = c, warm = w\<rparr>
           | _ \<Rightarrow> None))"

definition read_stats :: "store \<Rightarrow> val \<Rightarrow> CumulativeStats option" where
  "read_stats = read_entries read_browser_stats"

definition calculateDeltas_st :: "val \<Rightarrow> store \<Rightarrow> (error + Deltas) option \<times> store" where
  "calculateDeltas_st stats h =
     (case read_object h stats of
        None \<Rightarrow> (None, h)
      | Some ps \<Rightarrow>
          (case map_of ps ''Chrome'' of
             None \<Rightarrow> (Some (Inl TypeError), h)
           | Some cv \<Rightarrow>
               (case read_browser_stats h cv of
                  None \<Rightarrow> (None, h)
                | Some c \<Rightarrow>
                    (case map_of ps ''Firefox'' of
                       None \<Rightarrow> (Some (Inl TypeError), h)
                     | Some fv \<Rightarrow>
                         (case read_browser_stats h fv of
                            None \<Rightarrow> (None, h)
                          | Some f \<Rightarrow> (Some (Inr (deltas_of c f)), h))))))"

section \<open>Notions of the specification\<close>

text \<open>
  The leaves of a tree in the order in which the nested loops visit them, with the
  label that \<^verbatim>\<open>calculateMetricsData\<close> gives to each.
\<close>

definition js_leaves :: "JsBuckets \<Rightarrow> CacheBuckets list" where
  "js_leaves jsBuckets = concat (map (\<lambda>(jsLabel, sites). map snd sites) jsBuckets)"

definition leaves :: "ResultTree \<Rightarrow> CacheBuckets list" where
  "leaves data = concat (map (\<lambda>(browser, jsBuckets). js_leaves jsBuckets) data)"

definition js_labelled_leaves :: "string \<Rightarrow> JsBuckets \<Rightarrow> (string \<times> CacheBuckets) list" where
  "js_labelled_leaves browser jsBuckets =
     concat (map (\<lambda>(jsLabel, sites).
       map (\<lambda>(url, cacheBuckets). (make_label browser jsLabel url, cacheBuckets)) sites)
     jsBuckets)"

definition labelled_leaves :: "ResultTree \<Rightarrow> (string \<times> CacheBuckets) list" where
  "labelled_leaves data =
     concat (map (\<lambda>(browser, jsBuckets). js_labelled_leaves browser jsBuckets) data)"

text \<open>A leaf is complete when it has both cache-state keys.\<close>

definition complete :: "CacheBuckets \<Rightarrow> bool" where
  "complete cacheBuckets \<longleftrightarrow>
     CacheBuckets.cold cacheBuckets \<noteq> None \<and> CacheBuckets.warm cacheBuckets \<noteq> None"




text \<open>
  Two trees that differ only in the order of the trials inside their leaves: the same
  keys in the same order, and each sample list a permutation of its counterpart.
\<close>

definition perm_samples :: "RawSample list option \<Rightarrow> RawSample list option \<Rightarrow> bool" where
  "perm_samples a b = rel_option (\<lambda>xs ys. mset xs = mset ys) a b"

definition perm_buckets :: "CacheBuckets \<Rightarrow> CacheBuckets \<Rightarrow> bool" where
  "perm_buckets a b \<longleftrightarrow>
     perm_samples (CacheBuckets.cold a) (CacheBuckets.cold b) \<and>
     perm_samples (CacheBuckets.warm a) (CacheBuckets.warm b)"

definition perm_sites :: "Sites \<Rightarrow> Sites \<Rightarrow> bool" where
  "perm_sites = list_all2 (\<lambda>(url, a) (url', b). url = url' \<and> perm_buckets a b)"

definition perm_js :: "JsBuckets \<Rightarrow> JsBuckets \<Rightarrow> bool" where
  "perm_js = list_all2 (\<lambda>(jsLabel, a) (jsLabel', b). jsLabel = jsLabel' \<and> perm_sites a b)"

definition perm_tree :: "ResultTree \<Rightarrow> ResultTree \<Rightarrow> bool" where
  "perm_tree = list_all2 (\<lambda>(browser, a) (browser', b). browser = browser' \<and> perm_js a b)"

text \<open>The same relation on two leaves with their labels.\<close>

definition perm_leaf :: "string \<times> CacheBuckets \<Rightarrow> string \<times> CacheBuckets \<Rightarrow> bool" where
  "perm_leaf = (\<lambda>(l, a) (l', b). l = l' \<and> perm_buckets a b)"

text \<open>
  A leaf in which every sum that \<^verbatim>\<open>calculateMetricsData\<close> forms is exact: the five fields
  of the cold samples and the four fields of the warm samples that are averaged.
\<close>

definition exact_leaf :: "CacheBuckets \<Rightarrow> bool" where
  "exact_leaf cacheBuckets \<longleftrightarrow>
     (case CacheBuckets.cold cacheBuckets of
        None \<Rightarrow> True
      | Some c \<Rightarrow>
          sum_exact (not_null (map RawSample.browser_start_time c)) \<and>
          sum_exact (not_null (map RawSample.fcp c)) \<and>
          sum_exact (not_null (map RawSample.dom_interactive c)) \<and>
          sum_exact (not_null (map RawSample.dom_content_loaded c)) \<and>
          sum_exact (not_null (map RawSample.load c))) \<and>
     (case CacheBuckets.warm cacheBuckets of
        None \<Rightarrow> True
      | Some w \<Rightarrow>
          sum_exact (not_null (map RawSample.fcp w)) \<and>
          sum_exact (not_null (map RawSample.dom_interactive w)) \<and>
          sum_exact (not_null (map RawSample.dom_content_loaded w)) \<and>
          sum_exact (not_null (map RawSample.load w)))"

text \<open>
  The pools of one browser: every sample of every leaf, and the samples of one cache
  state.
\<close>

definition all_samples :: "JsBuckets \<Rightarrow> RawSample list" where
  "all_samples jsBuckets =
     concat (map (\<lambda>cacheBuckets. the (CacheBuckets.cold cacheBuckets) @ the (CacheBuckets.warm cacheBuckets))
                 (js_leaves jsBuckets))"

definition state_samples :: "(CacheBuckets \<Rightarrow> RawSample list option) \<Rightarrow> JsBuckets \<Rightarrow> RawSample list" where
  "state_samples state jsBuckets =
     concat (map (\<lambda>cacheBuckets. the (state cacheBuckets)) (js_leaves jsBuckets))"

section \<open>Example inputs\<close>

text \<open>
  A leaf with the cold FCP samples 100, 200, null, 300 and the warm FCP samples 50, 60.
  The first warm sample carries a \<^verbatim>\<open>browser_start_time\<close>.
\<close>

definition cold_samples :: "RawSample list" where
  "cold_samples =
     [\<lparr>RawSample.browser_start_time = Some 40, RawSample.fcp = Some 100, RawSample.dom_interactive = Some 150,
       RawSample.dom_content_loaded = Some 160, RawSample.load = Some 400\<rparr>,
      \<lparr>RawSample.browser_start_time = Some 60, RawSample.fcp = Some 200, RawSample.dom_interactive = None,
       RawSample.dom_content_loaded = Some 180, RawSample.load = Some 600\<rparr>,
      \<lparr>RawSample.browser_start_time = Some 50, RawSample.fcp = None, RawSample.dom_interactive = Some 250,
       RawSample.dom_content_loaded = None, RawSample.load = None\<rparr>,
      \<lparr>RawSample.browser_start_time = Some 50, RawSample.fcp = Some 300, RawSample.dom_interactive = Some 350,
       RawSample.dom_content_loaded = Some 380, RawSample.load = Some 500\<rparr>]"

definition warm_samples :: "RawSample list" where
  "warm_samples =
     [\<lparr>RawSample.browser_start_time = Some 5, RawSample.fcp = Some 50, RawSample.dom_interactive = Some 70,
       RawSample.dom_content_loaded = Some 80, RawSample.load = Some 90\<rparr>,
      \<lparr>RawSample.browser_start_time = None, RawSample.fcp = Some 60, RawSample.dom_interactive = Some 90,
       RawSample.dom_content_loaded = None, RawSample.load = Some 110\<rparr>]"

definition other_samples :: "RawSample list" where
  "other_samples =
     [\<lparr>RawSample.browser_start_time = Some 30, RawSample.fcp = Some 400, RawSample.dom_interactive = None,
       RawSample.dom_content_loaded = None, RawSample.load = Some 700\<rparr>]"

definition chrome_buckets :: JsBuckets where
  "chrome_buckets =
     [(''JS_on'', [(''https://example.com/'',
         \<lparr>CacheBuckets.cold = Some cold_samples, CacheBuckets.warm = Some warm_samples\<rparr>)]),
      (''JS_off'', [(''https://example.com/'',
         \<lparr>CacheBuckets.cold = Some other_samples, CacheBuckets.warm = Some []\<rparr>)])]"

definition firefox_buckets :: JsBuckets where
  "firefox_buckets =
     [(''JS_on'', [(''https://example.com/'',
         \<lparr>CacheBuckets.cold = Some other_samples, CacheBuckets.warm = Some other_samples\<rparr>)]),
      (''JS_off'', [(''https://example.com/'',
         \<lparr>CacheBuckets.cold = Some [], CacheBuckets.warm = Some []\<rparr>)])]"

definition full_tree :: ResultTree where
  "full_tree = [(''Chrome'', chrome_buckets), (''Firefox'', firefox_buckets)]"

text \<open>A tree without the browser Firefox, and a tree whose only leaf has no key \<^verbatim>\<open>warm\<close>.\<close>

definition chrome_only_tree :: ResultTree where
  "chrome_only_tree = [(''Chrome'', chrome_buckets)]"

definition missing_warm_tree :: ResultTree where
  "missing_warm_tree =
     [(''Chrome'', [(''JS_on'', [(''https://example.com/'',
         \<lparr>CacheBuckets.cold = Some cold_samples, CacheBuckets.warm = None\<rparr>)])])]"

text \<open>
  A tree as the collector writes it: the warm samples 50 and 60 of the first leaf have
  no \<^verbatim>\<open>browser_start_time\<close>.
\<close>

definition reload_samples :: "RawSample list" where
  "reload_samples =
     [\<lparr>RawSample.browser_start_time = None, RawSample.fcp = Some 50,
       RawSample.dom_interactive = Some 70, RawSample.dom_content_loaded = Some 80,
       RawSample.load = Some 90\<rparr>,
      \<lparr>RawSample.browser_start_time = None, RawSample.fcp = Some 60,
       RawSample.dom_interactive = Some 90, RawSample.dom_content_loaded = None,
       RawSample.load = Some 110\<rparr>]"

definition collected_buckets :: JsBuckets where
  "collected_buckets =
     [(''JS_on'', [(''https://example.com/'',
         \<lparr>CacheBuckets.cold = Some cold_samples, CacheBuckets.warm = Some reload_samples\<rparr>)]),
      (''JS_off'', [(''https://example.com/'',
         \<lparr>CacheBuckets.cold = Some other_samples, CacheBuckets.warm = Some []\<rparr>)])]"

definition collected_tree :: ResultTree where
  "collected_tree = [(''Chrome'', collected_buckets), (''Firefox'', collected_buckets)]"

text \<open>The same tree with the trials of the first leaf in another order.\<close>

definition reordered_tree :: ResultTree where
  "reordered_tree =
     [(''Chrome'',
        [(''JS_on'', [(''https://example.com/'',
            \<lparr>CacheBuckets.cold = Some (rev cold_samples), CacheBuckets.warm = Some reload_samples\<rparr>)]),
         (''JS_off'', [(''https://example.com/'',
            \<lparr>CacheBuckets.cold = Some other_samples, CacheBuckets.warm = Some []\<rparr>)])]),
      (''Firefox'', collected_buckets)]"

text \<open>
  Three cold samples with the FCP values 787.7, 1263.4 and 1390.8 (the doubles next to
  them), in a tree whose other leaves are empty.
\<close>

definition drift_samples :: "RawSample list" where
  "drift_samples =
     [\<lparr>RawSample.browser_start_time = Some 1200, RawSample.fcp = Some (round_double (7877 / 10)),
       RawSample.dom_interactive = Some 900, RawSample.dom_content_loaded = Some 950,
       RawSample.load = Some 1500\<rparr>,
      \<lparr>RawSample.browser_start_time = Some 1150, RawSample.fcp = Some (round_double (12634 / 10)),
       RawSample.dom_interactive = Some 1400, RawSample.dom_content_loaded = Some 1450,
       RawSample.load = Some 1900\<rparr>,
      \<lparr>RawSample.browser_start_time = Some 1180, RawSample.fcp = Some (round_double (13908 / 10)),
       RawSample.dom_interactive = Some 1500, RawSample.dom_content_loaded = Some 1600,
       RawSample.load = Some 2100\<rparr>]"

definition empty_buckets :: JsBuckets where
  "empty_buckets =
     [(''JS_on'', [(''https://example.com/'',
         \<lparr>CacheBuckets.cold = Some [], CacheBuckets.warm = Some []\<rparr>)]),
      (''JS_off'', [(''https://example.com/'',
         \<lparr>CacheBuckets.cold = Some [], CacheBuckets.warm = Some []\<rparr>)])]"

definition drift_tree :: "RawSample list \<Rightarrow> ResultTree" where
  "drift_tree c =
     [(''Chrome'',
        [(''JS_on'', [(''https://example.com/'',
            \<lparr>CacheBuckets.cold = Some c, CacheBuckets.warm = Some []\<rparr>)]),
         (''JS_off'', [(''https://example.com/'',
            \<lparr>CacheBuckets.cold = Some [], CacheBuckets.warm = Some []\<rparr>)])]),
      (''Firefox'', empty_buckets)]"

text \<open>
  Cumulative statistics in which Chrome has a cold FCP mean of 1000 and no warm FCP mean,
  and statistics in which every mean is defined.
\<close>

definition stats_no_warm :: CumulativeStats where
  "stats_no_warm =
     [(''Chrome'',
        \<lparr>overall = \<lparr>fcp = Some 1000, load = Some 2000\<rparr>,
         jsOn = \<lparr>fcp = Some 1100, load = Some 2100\<rparr>,
         jsOff = \<lparr>fcp = Some 900, load = Some 1900\<rparr>,
         cold = \<lparr>fcp = Some 1000, load = Some 2000\<rparr>,
         warm = \<lparr>fcp = None, load = None\<rparr>\<rparr>),
      (''Firefox'',
        \<lparr>overall = \<lparr>fcp = Some 1200, load = Some 2200\<rparr>,
         jsOn = \<lparr>fcp = Some 1300, load = Some 2300\<rparr>,
         jsOff = \<lparr>fcp = Some 1100, load = Some 2100\<rparr>,
         cold = \<lparr>fcp = Some 1400, load = Some 2400\<rparr>,
         warm = \<lparr>fcp = Some 1000, load = Some 2000\<rparr>\<rparr>)]"

definition stats_defined :: CumulativeStats where
  "stats_defined =
     [(''Chrome'',
        \<lparr>overall = \<lparr>fcp = Some 500, load = Some 2000\<rparr>,
         jsOn = \<lparr>fcp = Some 600, load = Some 2100\<rparr>,
         jsOff = \<lparr>fcp = Some 400, load = Some 1900\<rparr>,
         cold = \<lparr>fcp = Some 700, load = Some 2500\<rparr>,
         warm = \<lparr>fcp = Some 300, load = Some 1500\<rparr>\<rparr>),
      (''Firefox'',
        \<lparr>overall = \<lparr>fcp = Some 600, load = Some 2200\<rparr>,
         jsOn = \<lparr>fcp = Some 650, load = Some 2300\<rparr>,
         jsOff = \<lparr>fcp = Some 550, load = Some 2100\<rparr>,
         cold = \<lparr>fcp = Some 800, load = Some 2400\<rparr>,
         warm = \<lparr>fcp = Some 400, load = Some 2000\<rparr>\<rparr>)]"

text \<open>
  A store with a result tree at address 7 and cumulative statistics at address 11. The
  two browsers share one object, the warm array holds the same sample twice, and the
  groups of the statistics share their objects.
\<close>

definition example_store :: store where
  "example_store =
     [Obj [(''browser_start_time'', Num 40), (''fcp'', Num 100), (''load'', Num 400)],
      Arr [Ref 0],
      Obj [(''fcp'', Num 50), (''load'', Null)],
      Arr [Ref 2, Ref 2],
      Obj [(''cold'', Ref 1), (''warm'', Ref 3)],
      Obj [(''https://example.com/'', Ref 4)],
      Obj [(''JS_on'', Ref 5)],
      Obj [(''Chrome'', Ref 6), (''Firefox'', Ref 6)],
      Obj [(''fcp'', Num 1000), (''load'', Num 2000)],
      Obj [(''fcp'', Null), (''load'', Null)],
      Obj [(''overall'', Ref 8), (''jsOn'', Ref 8), (''jsOff'', Ref 8), (''cold'', Ref 8),
           (''warm'', Ref 9)],
      Obj [(''Chrome'', Ref 10), (''Firefox'', Ref 10)]]"

definition store_samples :: "RawSample list" where
  "store_samples =
     [\<lparr>RawSample.browser_start_time = None, RawSample.fcp = Some 50,
       RawSample.dom_interactive = None, RawSample.dom_content_loaded = None,
       RawSample.load = None\<rparr>]"

definition store_buckets :: JsBuckets where
  "store_buckets =
     [(''JS_on'', [(''https://example.com/'',
         \<lparr>CacheBuckets.cold =
            Some [\<lparr>RawSample.browser_start_time = Some 40, RawSample.fcp = Some 100,
                   RawSample.dom_interactive = None, RawSample.dom_content_loaded = None,
                   RawSample.load = Some 400\<rparr>],
          CacheBuckets.warm = Some (store_samples @ store_samples)\<rparr>)])]"

definition store_tree :: ResultTree where
  "store_tree = [(''Chrome'', store_buckets), (''Firefox'', store_buckets)]"

definition store_stats :: CumulativeStats where
  "store_stats =
     [(''Chrome'',
        \<lparr>overall = \<lparr>fcp = Some 1000, load = Some 2000\<rparr>,
         jsOn = \<lparr>fcp = Some 1000, load = Some 2000\<rparr>,
         jsOff = \<lparr>fcp = Some 1000, load = Some 2000\<rparr>,
         cold = \<lparr>fcp = Some 1000, load = Some 2000\<rparr>,
         warm = \<lparr>fcp = None, load = None\<rparr>\<rparr>),
      (''Firefox'',
        \<lparr>overall = \<lparr>fcp = Some 1000, load = Some 2000\<rparr>,
         jsOn = \<lparr>fcp = Some 1000, load = Some 2000\<rparr>,
         jsOff = \<lparr>fcp = Some 1000, load = Some 2000\<rparr>,
         cold = \<lparr>fcp = Some 1000, load = Some 2000\<rparr>,
         warm = \<lparr>fcp = None, load = None\<rparr>\<rparr>)]"

section \<open>The mean function\<close>



lemma sum_list_upper: "(\<And>x. x \<in> set xs \<Longrightarrow> x \<le> M) \<Longrightarrow> sum_list xs \<le> of_nat (length xs) * (M::rat)"
proof (induction xs)
  case Nil then show ?case by simp
next
  case (Cons a xs)
  have "a \<le> M" using Cons.prems by simp
  moreover have "sum_list xs \<le> of_nat (length xs) * M" using Cons by simp
  ultimately show ?case by (simp add: algebra_simps)
qed

lemma sum_list_lower: "(\<And>x. x \<in> set xs \<Longrightarrow> M \<le> x) \<Longrightarrow> of_nat (length xs) * (M::rat) \<le> sum_list xs"
proof (induction xs)
  case Nil then show ?case by simp
next
  case (Cons a xs)
  have "M \<le> a" using Cons.prems by simp
  moreover have "of_nat (length xs) * M \<le> sum_list xs" using Cons by simp
  ultimately show ?case by (simp add: algebra_simps)
qed

lemma not_null_mset: "mset xs = mset ys \<Longrightarrow> mset (not_null (map f xs)) = mset (not_null (map f ys))"
proof -
  assume h: "mset xs = mset ys"
  have "mset (not_null (map f xs)) = image_mset the (filter_mset (\<lambda>v. v \<noteq> None) (image_mset f (mset xs)))"
    by (simp add: not_null_def)
  also have "\<dots> = image_mset the (filter_mset (\<lambda>v. v \<noteq> None) (image_mset f (mset ys)))"
    by (simp only: h)
  also have "\<dots> = mset (not_null (map f ys))"
    by (simp add: not_null_def)
  finally show ?thesis .
qed





lemma not_null_concat: "not_null (map f (concat xss)) = concat (map (\<lambda>xs. not_null (map f xs)) xss)"
  by (induction xss) (simp_all add: not_null_def)


section \<open>The mean in double precision\<close>

text \<open>Rounding to the nearest integer, ties to even.\<close>

lemma round_even_split:
  assumes "0 \<le> r" and "r < 1"
  shows "round_even (of_int f + r) =
     (if r < 1 / 2 then f else if 1 / 2 < r then f + 1 else if even f then f else f + 1)"
proof -
  have "\<lfloor>of_int f + r\<rfloor> = f" by (rule floor_unique) (use assms in simp_all)
  then show ?thesis by (simp add: round_even_def Let_def)
qed

lemma split_floor:
  obtains f r where "x = of_int f + r" and "0 \<le> r" and "r < (1::rat)"
proof
  show "x = of_int \<lfloor>x\<rfloor> + (x - of_int \<lfloor>x\<rfloor>)" by simp
  show "0 \<le> x - of_int \<lfloor>x\<rfloor>" by simp
  show "x - of_int \<lfloor>x\<rfloor> < 1" by linarith
qed

lemma round_even_near: "\<bar>x - of_int (round_even x)\<bar> \<le> 1 / 2"
proof -
  obtain f r where x: "x = of_int f + r" and r: "0 \<le> r" "r < 1" by (rule split_floor)
  show ?thesis unfolding x round_even_split [OF r] using r by auto
qed

lemma round_even_of_int: "round_even (of_int k) = k"
  using round_even_split [of 0 k] by simp

lemma round_even_mono: "x \<le> y \<Longrightarrow> round_even x \<le> round_even y"
proof (rule ccontr)
  assume xy: "x \<le> y" and "\<not> round_even x \<le> round_even y"
  then have "round_even y + 1 \<le> round_even x" by simp
  then have "(of_int (round_even y + 1) :: rat) \<le> of_int (round_even x)"
    by (simp only: of_int_le_iff)
  then have gt: "(of_int (round_even y) :: rat) + 1 \<le> of_int (round_even x)" by simp
  from round_even_near [of x] round_even_near [of y] xy gt have "y \<le> x" by linarith
  with xy have "x = y" by simp
  with \<open>\<not> round_even x \<le> round_even y\<close> show False by simp
qed

lemma round_even_minus: "round_even (- x) = - round_even x"
proof -
  obtain f r where x: "x = of_int f + r" and r: "0 \<le> r" "r < 1" by (rule split_floor)
  show ?thesis
  proof (cases "r = 0")
    case True
    then have "x = of_int f" "- x = of_int (- f)" by (simp_all add: x)
    then show ?thesis by (simp only: round_even_of_int)
  next
    case False
    have m: "- x = of_int (- f - 1) + (1 - r)" by (simp add: x)
    have r': "0 \<le> 1 - r" "1 - r < 1" using r False by simp_all
    have p: "even (- f - 1) \<longleftrightarrow> odd f" by simp
    show ?thesis unfolding m round_even_split [OF r'] unfolding x round_even_split [OF r] p
      using r False by auto
  qed
qed

text \<open>The binade of a number, and the quantum there.\<close>

lemma bitlen_pos_bounds:
  assumes "0 < n"
  shows "(2::rat) powi (bitlen n - 1) \<le> of_int n" and "of_int n < (2::rat) powi bitlen n"
proof -
  from assms have b: "1 \<le> bitlen n" using bitlen_eq_zero_iff [of n] bitlen_nonneg [of n] by linarith
  from bitlen_bounds [OF assms] have l: "2 ^ nat (bitlen n - 1) \<le> n" and u: "n < 2 ^ nat (bitlen n)"
    by simp_all
  have "(of_int (2 ^ nat (bitlen n - 1)) :: rat) \<le> of_int n" using l by (simp only: of_int_le_iff)
  then show "(2::rat) powi (bitlen n - 1) \<le> of_int n" using b by (simp add: power_int_def)
  have "(of_int n :: rat) < of_int (2 ^ nat (bitlen n))" using u by (simp only: of_int_less_iff)
  then show "of_int n < (2::rat) powi bitlen n" using b by (simp add: power_int_def)
qed

lemma binade_bounds:
  assumes "x \<noteq> 0"
  shows "2 powi binade x \<le> \<bar>x\<bar>" and "\<bar>x\<bar> < 2 powi (binade x + 1)"
proof -
  define a where "a = \<bar>x\<bar>"
  have a: "0 < a" using assms by (simp add: a_def)
  have "2 powi binade x \<le> a \<and> a < 2 powi (binade x + 1)"
  proof (cases "1 \<le> a")
    case True
    define n where "n = \<lfloor>a\<rfloor>"
    have n: "0 < n" using True by (simp add: n_def)
    have e: "binade x = bitlen n - 1" using True by (simp add: binade_def a_def n_def)
    have "of_int n \<le> a" by (simp add: n_def)
    moreover have "a < of_int n + 1" unfolding n_def by linarith
    moreover have "of_int n + 1 \<le> (2::rat) powi bitlen n"
    proof -
      from bitlen_bounds [OF n] have "n + 1 \<le> 2 ^ nat (bitlen n)" by simp
      then have "(of_int (n + 1) :: rat) \<le> of_int (2 ^ nat (bitlen n))" by (simp only: of_int_le_iff)
      moreover have "0 \<le> bitlen n" by (rule bitlen_nonneg)
      ultimately show ?thesis by (simp add: power_int_def)
    qed
    ultimately show ?thesis using bitlen_pos_bounds(1) [OF n] by (simp add: e)
  next
    case False
    define y where "y = 1 / a"
    have y: "1 < y" using False a by (simp add: y_def)
    define m where "m = \<lceil>y\<rceil> - 1"
    have my: "of_int m < y" unfolding m_def by linarith
    have ym: "y \<le> of_int m + 1" unfolding m_def by simp
    have "(0::rat) < of_int m" using y ym by linarith
    then have m: "0 < m" by (simp only: of_int_0_less_iff)
    have e: "binade x = - bitlen m" using False by (simp add: binade_def a_def m_def y_def)
    have up: "of_int m + 1 \<le> (2::rat) powi bitlen m"
    proof -
      from bitlen_bounds [OF m] have "m + 1 \<le> 2 ^ nat (bitlen m)" by simp
      then have "(of_int (m + 1) :: rat) \<le> of_int (2 ^ nat (bitlen m))" by (simp only: of_int_le_iff)
      moreover have "0 \<le> bitlen m" by (rule bitlen_nonneg)
      ultimately show ?thesis by (simp add: power_int_def)
    qed
    have p: "0 < (2::rat) powi bitlen m" "0 < (2::rat) powi (bitlen m - 1)" by simp_all
    have ay: "a = 1 / y" using a by (simp add: y_def)
    have yb: "y \<le> 2 powi bitlen m" using ym up by linarith
    have y0: "0 < y" using y by linarith
    have "1 / 2 powi bitlen m \<le> 1 / y"
      by (rule frac_le) (use yb y0 in simp_all)
    then have l: "2 powi (- bitlen m) \<le> a"
      by (simp only: ay power_int_minus_divide)
    have "2 powi (bitlen m - 1) < y" using bitlen_pos_bounds(1) [OF m] my by linarith
    then have u: "a < 2 powi (- bitlen m + 1)"
    proof -
      assume h: "2 powi (bitlen m - 1) < y"
      have "- bitlen m + 1 = - (bitlen m - 1)" by simp
      then have "(2::rat) powi (- bitlen m + 1) = 1 / 2 powi (bitlen m - 1)"
        by (simp only: power_int_minus_divide)
      moreover have "1 / y < 1 / 2 powi (bitlen m - 1)"
        by (rule frac_less2) (use h p in simp_all)
      ultimately show ?thesis by (simp add: ay)
    qed
    from l u show ?thesis by (simp add: e)
  qed
  then show "2 powi binade x \<le> \<bar>x\<bar>" and "\<bar>x\<bar> < 2 powi (binade x + 1)" by (simp_all add: a_def)
qed

lemma binade_mono:
  assumes "x \<noteq> 0" and "\<bar>x\<bar> \<le> \<bar>y\<bar>"
  shows "binade x \<le> binade y"
proof (rule ccontr)
  assume "\<not> binade x \<le> binade y"
  then have "binade y + 1 \<le> binade x" by simp
  then have "(2::rat) powi (binade y + 1) \<le> 2 powi binade x" by (rule power_int_increasing) simp
  moreover have "y \<noteq> 0" using assms by auto
  ultimately show False using binade_bounds(1) [OF assms(1)] binade_bounds(2) [of y] assms(2)
    by linarith
qed

lemma binade_minus: "binade (- x) = binade x"
  by (simp add: binade_def)

lemma quantum_pos: "0 < quantum x"
  by (simp add: quantum_def)

lemma quantum_minus: "quantum (- x) = quantum x"
  by (simp add: quantum_def binade_minus)

lemma round_double_minus: "round_double (- x) = - round_double x"
  by (simp add: round_double_def quantum_minus round_even_minus)

text \<open>
  Rounding is monotone across a double: a number at or below a double is rounded to a
  number at or below it, and likewise from above.
\<close>

lemma grid_upper:
  assumes "0 < q" and "x \<le> of_int k * q"
  shows "of_int (round_even (x / q)) * q \<le> of_int k * q"
proof -
  from assms have "x / q \<le> of_int k" by (simp add: pos_divide_le_eq)
  then have "round_even (x / q) \<le> round_even (of_int k)" by (rule round_even_mono)
  then have "round_even (x / q) \<le> k" by (simp only: round_even_of_int)
  then have "(of_int (round_even (x / q)) :: rat) \<le> of_int k" by (simp only: of_int_le_iff)
  with assms(1) show ?thesis by (simp add: mult_right_mono)
qed

lemma round_double_grid:
  "x \<noteq> 0 \<Longrightarrow> round_double x = of_int (round_even (x / quantum x)) * quantum x"
  by (simp add: round_double_def)

lemma quantum_multiple:
  assumes "max (binade x) (- 1022) \<le> max (binade y) (- 1022)"
  shows "\<exists>j::nat. quantum y = of_int (2 ^ j) * quantum x"
proof -
  define ex where "ex = max (binade x) (- 1022) - 52"
  define ey where "ey = max (binade y) (- 1022) - 52"
  have le: "ex \<le> ey" using assms by (simp add: ex_def ey_def)
  have "ey = (ey - ex) + ex" by simp
  then have "(2::rat) powi ey = 2 powi (ey - ex) * 2 powi ex"
    by (metis power_int_add zero_neq_numeral)
  moreover have "(2::rat) powi (ey - ex) = of_int (2 ^ nat (ey - ex))"
    using le by (simp add: power_int_def)
  ultimately have "quantum y = of_int (2 ^ nat (ey - ex)) * quantum x"
    by (simp only: quantum_def ex_def ey_def)
  then show ?thesis ..
qed

lemma on_grid_le:
  assumes "x \<noteq> 0" and "x \<le> of_int k * quantum x"
  shows "round_double x \<le> of_int k * quantum x"
  unfolding round_double_grid [OF assms(1)] by (rule grid_upper [OF quantum_pos assms(2)])

lemma round_double_le:
  assumes hi: "representable hi" and le: "x \<le> hi"
  shows "round_double x \<le> hi"
proof -
  consider "x = 0" | "x < 0" "0 \<le> hi" | "0 < x" | "x < 0" "hi < 0" by linarith
  then show ?thesis
  proof cases
    case 1
    with le show ?thesis by (simp add: round_double_def)
  next
    case 2
    have "round_double x \<le> of_int 0 * quantum x"
      by (rule on_grid_le) (use 2 in simp_all)
    with 2 show ?thesis by simp
  next
    case 3
    with le have h0: "hi \<noteq> 0" and ab: "\<bar>x\<bar> \<le> \<bar>hi\<bar>" by simp_all
    from 3 have x0: "x \<noteq> 0" by simp
    from binade_mono [OF x0 ab] have "max (binade x) (- 1022) \<le> max (binade hi) (- 1022)" by simp
    from quantum_multiple [OF this] obtain j :: nat
      where q: "quantum hi = of_int (2 ^ j) * quantum x" ..
    from hi h0 have "hi = of_int (round_even (hi / quantum hi)) * quantum hi"
      by (simp add: representable_def round_double_grid)
    then have g: "hi = of_int (round_even (hi / quantum hi) * 2 ^ j) * quantum x"
      by (simp add: q)
    have "round_double x \<le> of_int (round_even (hi / quantum hi) * 2 ^ j) * quantum x"
      by (rule on_grid_le [OF x0]) (use le g in simp)
    with g show ?thesis by simp
  next
    case 4
    from 4 have x0: "x \<noteq> 0" and h0: "hi \<noteq> 0" by simp_all
    from 4 le have ab: "\<bar>hi\<bar> \<le> \<bar>x\<bar>" by simp
    have bm: "binade hi \<le> binade x" by (rule binade_mono [OF h0 ab])
    show ?thesis
    proof (cases "max (binade hi) (- 1022) = max (binade x) (- 1022)")
      case True
      then have q: "quantum hi = quantum x" by (simp add: quantum_def)
      from hi h0 have g: "hi = of_int (round_even (hi / quantum hi)) * quantum x"
        by (simp add: representable_def round_double_grid q [symmetric])
      have "round_double x \<le> of_int (round_even (hi / quantum hi)) * quantum x"
        by (rule on_grid_le [OF x0]) (use le g in simp)
      with g show ?thesis by simp
    next
      case False
      with bm have big: "- 1022 < binade x" and lt: "binade hi + 1 \<le> binade x" by auto
      from big have qx: "quantum x = 2 powi (binade x - 52)" by (simp add: quantum_def max_def)
      have "(2::rat) powi binade x = 2 powi 52 * 2 powi (binade x - 52)"
        by (metis add.commute diff_add_cancel power_int_add zero_neq_numeral)
      then have B: "(2::rat) powi binade x = of_int (2 ^ 52) * quantum x" by (simp add: qx)
      have "x \<le> - (2 powi binade x)" using binade_bounds(1) [OF x0] 4 by simp
      then have "x \<le> of_int (- (2 ^ 52)) * quantum x" by (simp add: B)
      with x0 have "round_double x \<le> of_int (- (2 ^ 52)) * quantum x" by (rule on_grid_le)
      then have r: "round_double x \<le> - (2 powi binade x)" by (simp add: B)
      have "(2::rat) powi (binade hi + 1) \<le> 2 powi binade x"
        using lt by (rule power_int_increasing) simp
      with binade_bounds(2) [OF h0] 4 have "- (2 powi binade x) < hi" by simp
      with r show ?thesis by simp
    qed
  qed
qed

lemma representable_minus: "representable x \<Longrightarrow> representable (- x)"
  by (simp add: representable_def round_double_minus binade_minus)

lemma round_double_ge:
  assumes "representable lo" and "lo \<le> x"
  shows "lo \<le> round_double x"
proof -
  have "round_double (- x) \<le> - lo"
    by (rule round_double_le) (use assms in \<open>simp_all add: representable_minus\<close>)
  then show ?thesis by (simp add: round_double_minus)
qed

text \<open>
  Whole numbers up to \<open>2 ^ 53\<close> are doubles, so a sum of whole numbers that stays below
  this bound, such as a sum of whole milliseconds, is exact.
\<close>

lemma binade_one: "binade 1 = 0"
  by code_simp

lemma representable_of_int:
  assumes "\<bar>k\<bar> \<le> 2 ^ 53"
  shows "representable (of_int k)"
proof (cases "k = 0")
  case True
  then show ?thesis using bitlen_nonneg [of "- 1"]
    by (simp add: representable_def round_double_def binade_def)
next
  case False
  define x :: rat where "x = of_int k"
  have x0: "x \<noteq> 0" using False by (simp add: x_def)
  have "1 \<le> \<bar>k\<bar>" using False by simp
  then have "(of_int 1 :: rat) \<le> of_int \<bar>k\<bar>" by (simp only: of_int_le_iff)
  then have x1: "\<bar>1::rat\<bar> \<le> \<bar>x\<bar>" by (simp add: x_def)
  have b0: "0 \<le> binade x" using binade_mono [OF _ x1] by (simp add: binade_one)
  have "(of_int \<bar>k\<bar> :: rat) \<le> of_int (2 ^ 53)" using assms by (simp only: of_int_le_iff)
  then have xu: "\<bar>x\<bar> \<le> 2 powi 53" by (simp add: x_def)
  have b53: "binade x \<le> 53"
  proof (rule ccontr)
    assume "\<not> binade x \<le> 53"
    then have "54 \<le> binade x" by simp
    then have "(2::rat) powi 54 \<le> 2 powi binade x" by (rule power_int_increasing) simp
    with binade_bounds(1) [OF x0] xu have "(2::rat) powi 54 \<le> 2 powi 53" by linarith
    then show False by simp
  qed
  have q: "quantum x = 2 powi (binade x - 52)" using b0 by (simp add: quantum_def max_def)
  from b53 have m: "binade x \<le> 1023" by simp
  show ?thesis
  proof (cases "binade x \<le> 52")
    case True
    define j where "j = nat (52 - binade x)"
    have "binade x - 52 = - int j" using True by (simp add: j_def)
    then have qj: "quantum x = 1 / 2 ^ j" by (simp add: q power_int_minus_divide)
    have "x / quantum x = x * 2 ^ j" by (simp add: qj)
    also have "\<dots> = of_int (k * 2 ^ j)" by (simp add: x_def)
    finally have r: "round_even (x / quantum x) = k * 2 ^ j" by (simp only: round_even_of_int)
    have "of_int (round_even (x / quantum x)) * quantum x = of_int (k * 2 ^ j) * (1 / 2 ^ j)"
      unfolding r by (simp only: qj)
    also have "\<dots> = x" by (simp add: x_def)
    finally have "round_double x = x" using x0 by (simp add: round_double_def)
    with m show ?thesis by (simp add: representable_def x_def)
  next
    case False
    with b53 have b: "binade x = 53" by simp
    have "2 powi 53 \<le> \<bar>x\<bar>" using binade_bounds(1) [OF x0] by (simp add: b)
    with xu have ax: "\<bar>x\<bar> = 2 ^ 53" by simp
    have qq: "quantum x = 2" by (simp add: q b)
    from ax have "x = 2 ^ 53 \<or> x = - (2 ^ 53)" by linarith
    then have "x / quantum x = of_int (2 ^ 52) \<or> x / quantum x = of_int (- (2 ^ 52))"
      by (auto simp: qq)
    then have "of_int (round_even (x / quantum x)) = x / quantum x"
      by (auto simp only: round_even_of_int)
    then have "round_double x = x" using x0 by (simp add: round_double_def qq)
    with m show ?thesis by (simp add: representable_def x_def)
  qed
qed

lemma exact_from_of_nat:
  "s + sum_list ns \<le> 2 ^ 53 \<Longrightarrow> exact_from (of_nat s) (map of_nat ns)"
proof (induction ns arbitrary: s)
  case Nil
  then show ?case by simp
next
  case (Cons n ns)
  have "s + n \<le> 2 ^ 53" using Cons.prems by simp
  then have "\<bar>int (s + n)\<bar> \<le> 2 ^ 53" by simp
  then have "representable (of_int (int (s + n)))" by (rule representable_of_int)
  then have r: "representable (of_nat s + of_nat n)" by simp
  have "(s + n) + sum_list ns \<le> 2 ^ 53" using Cons.prems by simp
  from Cons.IH [OF this] r show ?case by simp
qed

lemma sum_exact_of_nat:
  assumes "sum_list ns \<le> 2 ^ 53"
  shows "sum_exact (map of_nat ns)"
  using exact_from_of_nat [of 0 ns] assms by (simp add: sum_exact_def)

text \<open>With exact additions only the division rounds.\<close>

lemma exact_from_foldl:
  "exact_from a arr \<Longrightarrow> foldl (\<lambda>a b. fadd a b) a arr = a + sum_list arr"
proof (induction arr arbitrary: a)
  case Nil
  then show ?case by simp
next
  case (Cons b arr)
  from Cons.prems have "fadd a b = a + b" and "exact_from (a + b) arr"
    by (simp_all add: fadd_def representable_def)
  with Cons.IH [of "a + b"] show ?case by (simp add: add.assoc)
qed

lemma sum_exact_foldl: "sum_exact arr \<Longrightarrow> foldl (\<lambda>a b. fadd a b) 0 arr = sum_list arr"
  using exact_from_foldl [of 0 arr] by (simp add: sum_exact_def)

lemma avg_double_exact:
  assumes "sum_exact arr" and "arr \<noteq> []"
  shows "avg_double arr = Some (round_double (sum_list arr / of_nat (length arr)))"
  using assms by (simp add: avg_double_def sum_exact_foldl fdiv_def)

text \<open>
  Claim C7, as amended. For a non-empty array of doubles in which every addition of the
  \<^verbatim>\<open>reduce\<close> has a double as its exact result, \<^verbatim>\<open>avg\<close> returns a number between the
  least and the greatest element, both included; and \<^verbatim>\<open>avg\<close> of a single double is that
  double, always.
\<close>

theorem avg_double_between_min_max:
  assumes "list_all representable (x # xs)"
  shows "(sum_exact (x # xs) \<longrightarrow>
            (\<exists>m. avg_double (x # xs) = Some m \<and> Min (set (x # xs)) \<le> m \<and> m \<le> Max (set (x # xs)))) \<and>
         avg_double [x] = Some x"
proof
  show "sum_exact (x # xs) \<longrightarrow>
            (\<exists>m. avg_double (x # xs) = Some m \<and> Min (set (x # xs)) \<le> m \<and> m \<le> Max (set (x # xs)))"
  proof
    assume ex: "sum_exact (x # xs)"
    define ys where "ys = x # xs"
    have ne: "ys \<noteq> []" by (simp add: ys_def)
    then have n: "(0::rat) < of_nat (length ys)" by simp
    have rep: "\<And>y. y \<in> set ys \<Longrightarrow> representable y"
      using assms by (auto simp: ys_def list_all_iff)
    have "Min (set ys) \<in> set ys" "Max (set ys) \<in> set ys" using ne by simp_all
    then have rmin: "representable (Min (set ys))" and rmax: "representable (Max (set ys))"
      using rep by blast+
    have "of_nat (length ys) * Min (set ys) \<le> sum_list ys"
      by (rule sum_list_lower) simp
    then have lo: "Min (set ys) \<le> sum_list ys / of_nat (length ys)"
      using n by (simp add: pos_le_divide_eq mult.commute)
    have "sum_list ys \<le> of_nat (length ys) * Max (set ys)"
      by (rule sum_list_upper) simp
    then have hi: "sum_list ys / of_nat (length ys) \<le> Max (set ys)"
      using n by (simp add: pos_divide_le_eq mult.commute)
    have a: "avg_double ys = Some (round_double (sum_list ys / of_nat (length ys)))"
      by (rule avg_double_exact) (use ex ne in \<open>simp_all add: ys_def\<close>)
    from round_double_ge [OF rmin lo] round_double_le [OF rmax hi] a
    show "\<exists>m. avg_double (x # xs) = Some m \<and> Min (set (x # xs)) \<le> m \<and> m \<le> Max (set (x # xs))"
      unfolding ys_def by blast
  qed
  from assms have "round_double x = x" by (simp add: representable_def)
  then show "avg_double [x] = Some x" by (simp add: avg_double_def fadd_def fdiv_def)
qed

theorem avg_double_between_min_max_witness:
  "list_all representable [1, 1, 2] \<and> sum_exact [1, 1, 2] \<and>
   (\<exists>m. avg_double [1, 1, 2] = Some m \<and> 1 \<le> m \<and> m \<le> 2) \<and> avg_double [1] = Some 1 \<and>
   avg_double [1, 1, 2] \<noteq> avg [1, 1, 2]"
proof -
  have r: "list_all representable [1, 1, 2]" by code_simp
  have e: "sum_exact [1, 1, 2]" by code_simp
  have d: "avg_double [1, 1, 2] \<noteq> avg [1, 1, 2]" by code_simp
  from avg_double_between_min_max [OF r] r e d show ?thesis by simp
qed

text \<open>
  Claim C7 as it is stated fails when the sum is rounded. Three times the double next
  to 0.1 (\<^verbatim>\<open>avg([0.1, 0.1, 0.1])\<close>) has the mean 0.10000000000000002, one step above the
  greatest element; three times the double next to 341.4 has the mean
  341.3999999999999, one step below the least element.
\<close>

theorem rounded_mean_counterexample:
  "list_all representable [round_double (1 / 10), round_double (1 / 10), round_double (1 / 10)] \<and>
   round_double (1 / 10) = 3602879701896397 / 36028797018963968 \<and>
   avg_double [round_double (1 / 10), round_double (1 / 10), round_double (1 / 10)] =
     Some (3602879701896397 / 36028797018963968 + 1 / 72057594037927936) \<and>
   Max (set [round_double (1 / 10), round_double (1 / 10), round_double (1 / 10)]) <
     the (avg_double [round_double (1 / 10), round_double (1 / 10), round_double (1 / 10)]) \<and>
   list_all representable
     [round_double (3414 / 10), round_double (3414 / 10), round_double (3414 / 10)] \<and>
   round_double (3414 / 10) = 3002986157781811 / 8796093022208 \<and>
   avg_double [round_double (3414 / 10), round_double (3414 / 10), round_double (3414 / 10)] =
     Some (3002986157781811 / 8796093022208 - 1 / 17592186044416) \<and>
   the (avg_double [round_double (3414 / 10), round_double (3414 / 10), round_double (3414 / 10)]) <
     Min (set [round_double (3414 / 10), round_double (3414 / 10), round_double (3414 / 10)])"
  by code_simp

section \<open>What calculateMetricsData returns\<close>

lemma error_TypeError: "(e::error) = TypeError"
  by (cases e)

lemma metrics_sites_eq:
  "metrics_sites browser jsLabel sites acc =
     (if list_all complete (map snd sites)
      then Inr \<lparr>MetricsData.cold = MetricsData.cold acc @
                   map (\<lambda>(url, cb). coldMetrics (make_label browser jsLabel url) (the (CacheBuckets.cold cb))) sites,
                MetricsData.warm = MetricsData.warm acc @
                   map (\<lambda>(url, cb). warmMetrics (make_label browser jsLabel url) (the (CacheBuckets.warm cb))) sites\<rparr>
      else Inl TypeError)"
proof (induction sites arbitrary: acc)
  case Nil
  then show ?case by simp
next
  case (Cons s sites)
  obtain url cb where s: "s = (url, cb)" by (cases s)
  show ?case
    by (cases "CacheBuckets.cold cb"; cases "CacheBuckets.warm cb")
       (simp_all add: s Cons.IH metrics_site_def complete_def)
qed

lemma metrics_js_eq:
  "metrics_js browser jsBuckets acc =
     (if list_all complete (js_leaves jsBuckets)
      then Inr \<lparr>MetricsData.cold = MetricsData.cold acc @
                   map (\<lambda>(l, cb). coldMetrics l (the (CacheBuckets.cold cb))) (js_labelled_leaves browser jsBuckets),
                MetricsData.warm = MetricsData.warm acc @
                   map (\<lambda>(l, cb). warmMetrics l (the (CacheBuckets.warm cb))) (js_labelled_leaves browser jsBuckets)\<rparr>
      else Inl TypeError)"
proof (induction jsBuckets arbitrary: acc)
  case Nil
  then show ?case by (simp add: js_leaves_def js_labelled_leaves_def)
next
  case (Cons j jsBuckets)
  obtain jsLabel sites where j: "j = (jsLabel, sites)" by (cases j)
  have l: "js_leaves ((jsLabel, sites) # jsBuckets) = map snd sites @ js_leaves jsBuckets"
    by (simp add: js_leaves_def)
  have ll: "js_labelled_leaves browser ((jsLabel, sites) # jsBuckets) =
      map (\<lambda>(url, cb). (make_label browser jsLabel url, cb)) sites @ js_labelled_leaves browser jsBuckets"
    by (simp add: js_labelled_leaves_def)
  show ?case
    by (simp add: j l ll metrics_sites_eq Cons.IH split_def comp_def)
qed

lemma metrics_browsers_eq:
  "metrics_browsers data acc =
     (if list_all complete (leaves data)
      then Inr \<lparr>MetricsData.cold = MetricsData.cold acc @
                   map (\<lambda>(l, cb). coldMetrics l (the (CacheBuckets.cold cb))) (labelled_leaves data),
                MetricsData.warm = MetricsData.warm acc @
                   map (\<lambda>(l, cb). warmMetrics l (the (CacheBuckets.warm cb))) (labelled_leaves data)\<rparr>
      else Inl TypeError)"
proof (induction data arbitrary: acc)
  case Nil
  then show ?case by (simp add: leaves_def labelled_leaves_def)
next
  case (Cons b data)
  obtain browser jsBuckets where b: "b = (browser, jsBuckets)" by (cases b)
  have l: "leaves ((browser, jsBuckets) # data) = js_leaves jsBuckets @ leaves data"
    by (simp add: leaves_def)
  have ll: "labelled_leaves ((browser, jsBuckets) # data) = js_labelled_leaves browser jsBuckets @ labelled_leaves data"
    by (simp add: labelled_leaves_def)
  show ?case
    by (simp add: b l ll metrics_js_eq Cons.IH)
qed

lemma calculateMetricsData_eq:
  "calculateMetricsData data =
     (if list_all complete (leaves data)
      then Inr \<lparr>MetricsData.cold =
                   map (\<lambda>(l, cb). coldMetrics l (the (CacheBuckets.cold cb))) (labelled_leaves data),
                MetricsData.warm =
                   map (\<lambda>(l, cb). warmMetrics l (the (CacheBuckets.warm cb))) (labelled_leaves data)\<rparr>
      else Inl TypeError)"
  by (simp add: calculateMetricsData_def metrics_browsers_eq)

lemma snd_js_labelled_leaves: "map snd (js_labelled_leaves browser jsBuckets) = js_leaves jsBuckets"
  by (induction jsBuckets) (auto simp: js_labelled_leaves_def js_leaves_def split_def comp_def)

lemma snd_labelled_leaves: "map snd (labelled_leaves data) = leaves data"
  by (induction data) (auto simp: labelled_leaves_def leaves_def snd_js_labelled_leaves)



section \<open>What calculateCumulativeStats returns\<close>

lemma collect_site_incomplete: "\<not> complete cb \<Longrightarrow> collect_site jsLabel cb p = Inl TypeError"
  by (auto simp: collect_site_def complete_def split: option.splits)

lemma collect_site_complete: "complete cb \<Longrightarrow> \<exists>p'. collect_site jsLabel cb p = Inr p'"
  by (auto simp: collect_site_def complete_def Let_def split: option.splits)

lemma collect_sites_result:
  "collect_sites jsLabel sites p = Inl TypeError \<longleftrightarrow> \<not> list_all complete (map snd sites)"
proof (induction sites arbitrary: p)
  case Nil
  then show ?case by simp
next
  case (Cons s sites)
  obtain url cb where s: "s = (url, cb)" by (cases s)
  show ?case
  proof (cases "complete cb")
    case True
    then obtain p' where "collect_site jsLabel cb p = Inr p'"
      using collect_site_complete by blast
    then show ?thesis using True by (simp add: s Cons.IH)
  next
    case False
    then show ?thesis by (simp add: s collect_site_incomplete)
  qed
qed

lemma collect_js_result:
  "collect_js jsBuckets p = Inl TypeError \<longleftrightarrow> \<not> list_all complete (js_leaves jsBuckets)"
proof (induction jsBuckets arbitrary: p)
  case Nil
  then show ?case by (simp add: js_leaves_def)
next
  case (Cons j jsBuckets)
  obtain jsLabel sites where j: "j = (jsLabel, sites)" by (cases j)
  have l: "js_leaves ((jsLabel, sites) # jsBuckets) = map snd sites @ js_leaves jsBuckets"
    by (simp add: js_leaves_def)
  show ?case
  proof (cases "collect_sites jsLabel sites p")
    case (Inl e)
    then have "collect_sites jsLabel sites p = Inl TypeError" by (cases e) simp
    then show ?thesis using collect_sites_result [of jsLabel sites p] by (simp add: j l)
  next
    case (Inr p')
    then have "list_all complete (map snd sites)"
      using collect_sites_result [of jsLabel sites p] by simp
    then show ?thesis using Inr by (simp add: j l Cons.IH)
  qed
qed

lemma calculateCumulativeStats_result:
  "calculateCumulativeStats data = Inl TypeError \<longleftrightarrow> \<not> list_all complete (leaves data)"
proof (induction data)
  case Nil
  then show ?case by (simp add: leaves_def)
next
  case (Cons b data)
  obtain browser jsBuckets where b: "b = (browser, jsBuckets)" by (cases b)
  have l: "leaves ((browser, jsBuckets) # data) = js_leaves jsBuckets @ leaves data"
    by (simp add: leaves_def)
  show ?case
  proof (cases "collect_js jsBuckets empty_pools")
    case (Inl e)
    then have "collect_js jsBuckets empty_pools = Inl TypeError" by (cases e) simp
    then show ?thesis using collect_js_result [of jsBuckets empty_pools] by (simp add: b l)
  next
    case (Inr p)
    then have "list_all complete (js_leaves jsBuckets)"
      using collect_js_result [of jsBuckets empty_pools] by simp
    then show ?thesis using Inr Cons.IH
      by (cases "calculateCumulativeStats data") (simp_all add: b l error_TypeError)
  qed
qed

text \<open>
  What one of the ten arrays receives: when every visit of a leaf appends \<open>c\<close> of that
  leaf to the array \<open>g\<close>, the loops append the contributions of all leaves in order.
\<close>

lemma collect_sites_pool:
  assumes step: "\<And>cb p p'. collect_site jsLabel cb p = Inr p' \<Longrightarrow> g p' = g p @ c cb"
  shows "collect_sites jsLabel sites p = Inr p' \<Longrightarrow> g p' = g p @ concat (map (\<lambda>s. c (snd s)) sites)"
proof (induction sites arbitrary: p)
  case Nil
  then show ?case by simp
next
  case (Cons s sites)
  obtain url cb where s: "s = (url, cb)" by (cases s)
  from Cons.prems obtain q where q: "collect_site jsLabel cb p = Inr q"
    and r: "collect_sites jsLabel sites q = Inr p'"
    by (auto simp: s split: sum.splits)
  from step [OF q] Cons.IH [OF r] show ?case by (simp add: s)
qed

lemma collect_js_pool:
  assumes step: "\<And>jsLabel cb p p'. collect_site jsLabel cb p = Inr p' \<Longrightarrow> g p' = g p @ c cb"
  shows "collect_js jsBuckets p = Inr p' \<Longrightarrow> g p' = g p @ concat (map c (js_leaves jsBuckets))"
proof (induction jsBuckets arbitrary: p)
  case Nil
  then show ?case by (simp add: js_leaves_def)
next
  case (Cons j jsBuckets)
  obtain jsLabel sites where j: "j = (jsLabel, sites)" by (cases j)
  have l: "js_leaves ((jsLabel, sites) # jsBuckets) = map snd sites @ js_leaves jsBuckets"
    by (simp add: js_leaves_def)
  from Cons.prems obtain q where q: "collect_sites jsLabel sites p = Inr q"
    and r: "collect_js jsBuckets q = Inr p'"
    by (auto simp: j split: sum.splits)
  have "g q = g p @ concat (map (\<lambda>s. c (snd s)) sites)"
    using collect_sites_pool [of jsLabel g c sites p q] step q by blast
  with Cons.IH [OF r] show ?case by (simp add: j l comp_def)
qed

lemma collect_site_allFcps:
  "collect_site jsLabel cb p = Inr p' \<Longrightarrow>
   Pools.allFcps p' = Pools.allFcps p @ not_null (map RawSample.fcp (the (CacheBuckets.cold cb) @ the (CacheBuckets.warm cb)))"
  by (auto simp: collect_site_def Let_def not_null_def split: option.splits if_splits)

lemma collect_site_allLoads:
  "collect_site jsLabel cb p = Inr p' \<Longrightarrow>
   Pools.allLoads p' = Pools.allLoads p @ not_null (map RawSample.load (the (CacheBuckets.cold cb) @ the (CacheBuckets.warm cb)))"
  by (auto simp: collect_site_def Let_def not_null_def split: option.splits if_splits)

lemma collect_site_coldFcps:
  "collect_site jsLabel cb p = Inr p' \<Longrightarrow>
   Pools.coldFcps p' = Pools.coldFcps p @ not_null (map RawSample.fcp (the (CacheBuckets.cold cb)))"
  by (auto simp: collect_site_def Let_def split: option.splits if_splits)

lemma collect_site_coldLoads:
  "collect_site jsLabel cb p = Inr p' \<Longrightarrow>
   Pools.coldLoads p' = Pools.coldLoads p @ not_null (map RawSample.load (the (CacheBuckets.cold cb)))"
  by (auto simp: collect_site_def Let_def split: option.splits if_splits)

lemma collect_site_warmFcps:
  "collect_site jsLabel cb p = Inr p' \<Longrightarrow>
   Pools.warmFcps p' = Pools.warmFcps p @ not_null (map RawSample.fcp (the (CacheBuckets.warm cb)))"
  by (auto simp: collect_site_def Let_def split: option.splits if_splits)

lemma collect_site_warmLoads:
  "collect_site jsLabel cb p = Inr p' \<Longrightarrow>
   Pools.warmLoads p' = Pools.warmLoads p @ not_null (map RawSample.load (the (CacheBuckets.warm cb)))"
  by (auto simp: collect_site_def Let_def split: option.splits if_splits)

lemma collect_js_allFcps:
  "collect_js jsBuckets empty_pools = Inr p \<Longrightarrow> Pools.allFcps p = not_null (map RawSample.fcp (all_samples jsBuckets))"
  using collect_js_pool [of Pools.allFcps "\<lambda>cb. not_null (map RawSample.fcp (the (CacheBuckets.cold cb) @ the (CacheBuckets.warm cb)))" jsBuckets empty_pools p]
    collect_site_allFcps
  by (simp add: all_samples_def not_null_concat empty_pools_def comp_def)

lemma collect_js_allLoads:
  "collect_js jsBuckets empty_pools = Inr p \<Longrightarrow> Pools.allLoads p = not_null (map RawSample.load (all_samples jsBuckets))"
  using collect_js_pool [of Pools.allLoads "\<lambda>cb. not_null (map RawSample.load (the (CacheBuckets.cold cb) @ the (CacheBuckets.warm cb)))" jsBuckets empty_pools p]
    collect_site_allLoads
  by (simp add: all_samples_def not_null_concat empty_pools_def comp_def)

lemma collect_js_coldFcps:
  "collect_js jsBuckets empty_pools = Inr p \<Longrightarrow>
   Pools.coldFcps p = not_null (map RawSample.fcp (state_samples CacheBuckets.cold jsBuckets))"
  using collect_js_pool [of Pools.coldFcps "\<lambda>cb. not_null (map RawSample.fcp (the (CacheBuckets.cold cb)))" jsBuckets empty_pools p]
    collect_site_coldFcps
  by (simp add: state_samples_def not_null_concat empty_pools_def comp_def)

lemma collect_js_coldLoads:
  "collect_js jsBuckets empty_pools = Inr p \<Longrightarrow>
   Pools.coldLoads p = not_null (map RawSample.load (state_samples CacheBuckets.cold jsBuckets))"
  using collect_js_pool [of Pools.coldLoads "\<lambda>cb. not_null (map RawSample.load (the (CacheBuckets.cold cb)))" jsBuckets empty_pools p]
    collect_site_coldLoads
  by (simp add: state_samples_def not_null_concat empty_pools_def comp_def)

lemma collect_js_warmFcps:
  "collect_js jsBuckets empty_pools = Inr p \<Longrightarrow>
   Pools.warmFcps p = not_null (map RawSample.fcp (state_samples CacheBuckets.warm jsBuckets))"
  using collect_js_pool [of Pools.warmFcps "\<lambda>cb. not_null (map RawSample.fcp (the (CacheBuckets.warm cb)))" jsBuckets empty_pools p]
    collect_site_warmFcps
  by (simp add: state_samples_def not_null_concat empty_pools_def comp_def)

lemma collect_js_warmLoads:
  "collect_js jsBuckets empty_pools = Inr p \<Longrightarrow>
   Pools.warmLoads p = not_null (map RawSample.load (state_samples CacheBuckets.warm jsBuckets))"
  using collect_js_pool [of Pools.warmLoads "\<lambda>cb. not_null (map RawSample.load (the (CacheBuckets.warm cb)))" jsBuckets empty_pools p]
    collect_site_warmLoads
  by (simp add: state_samples_def not_null_concat empty_pools_def comp_def)

lemma mset_concat_append:
  "mset (concat (map (\<lambda>x. f x @ g x) xs)) = mset (concat (map f xs) @ concat (map g xs))"
  by (induction xs) simp_all

lemma mset_all_samples:
  "mset (all_samples jsBuckets) =
   mset (state_samples CacheBuckets.cold jsBuckets @ state_samples CacheBuckets.warm jsBuckets)"
  unfolding all_samples_def state_samples_def by (rule mset_concat_append)

lemma mset_pool_split:
  "mset (not_null (map f (all_samples jsBuckets))) =
   mset (not_null (map f (state_samples CacheBuckets.cold jsBuckets)) @
         not_null (map f (state_samples CacheBuckets.warm jsBuckets)))"
proof -
  have "mset (not_null (map f (all_samples jsBuckets))) =
        mset (not_null (map f (state_samples CacheBuckets.cold jsBuckets @ state_samples CacheBuckets.warm jsBuckets)))"
    by (rule not_null_mset) (rule mset_all_samples)
  then show ?thesis by (simp add: not_null_def)
qed

lemma calculateCumulativeStats_keys:
  "calculateCumulativeStats data = Inr stats \<Longrightarrow> map fst stats = map fst data"
  by (induction data arbitrary: stats) (auto split: sum.splits)

lemma calculateCumulativeStats_lookup:
  "calculateCumulativeStats data = Inr stats \<Longrightarrow> distinct (map fst data) \<Longrightarrow>
   (browser, jsBuckets) \<in> set data \<Longrightarrow>
   \<exists>p. collect_js jsBuckets empty_pools = Inr p \<and> map_of stats browser = Some (browser_stats p)"
proof (induction data arbitrary: stats)
  case Nil
  then show ?case by simp
next
  case (Cons b data)
  obtain b' js' where b: "b = (b', js')" by (cases b)
  from Cons.prems(1) obtain p rest where p: "collect_js js' empty_pools = Inr p"
    and rest: "calculateCumulativeStats data = Inr rest"
    and stats: "stats = (b', browser_stats p) # rest"
    by (auto simp: b split: sum.splits)
  show ?case
  proof (cases "(browser, jsBuckets) = (b', js')")
    case True
    then show ?thesis using p stats by simp
  next
    case False
    with Cons.prems(3) have mem: "(browser, jsBuckets) \<in> set data" by (auto simp: b)
    from Cons.prems(2) have d: "distinct (map fst data)" and nb: "b' \<notin> fst ` set data"
      by (simp_all add: b)
    from mem nb have "browser \<noteq> b'" by force
    with Cons.IH [OF rest d mem] stats show ?thesis by simp
  qed
qed

text \<open>
  Claim C2. For every browser of a tree whose leaves are complete,
  \<^verbatim>\<open>calculateCumulativeStats\<close> sets the overall FCP and the overall load of that browser
  to the mean of one pool: the non-null values of all samples of the browser, over every
  JS state, URL and both cache states, in the order of the traversal. The values of this
  pool are those of the cold pool and of the warm pool taken together, each as often as
  it occurs there, where the cold and the warm pool are the ones whose means the
  function stores under \<^verbatim>\<open>cold\<close> and \<^verbatim>\<open>warm\<close>; the overall mean is not computed from
  those two means.
\<close>

theorem overall_is_pooled_mean:
  assumes "list_all complete (leaves data)"
    and "distinct (map fst data)"
    and "(browser, jsBuckets) \<in> set data"
  shows "\<exists>stats bs. calculateCumulativeStats data = Inr stats \<and> map_of stats browser = Some bs \<and>
     Stat.fcp (overall bs) = avg (not_null (map RawSample.fcp (all_samples jsBuckets))) \<and>
     Stat.load (overall bs) = avg (not_null (map RawSample.load (all_samples jsBuckets))) \<and>
     mset (not_null (map RawSample.fcp (all_samples jsBuckets))) =
       mset (not_null (map RawSample.fcp (state_samples CacheBuckets.cold jsBuckets))) +
       mset (not_null (map RawSample.fcp (state_samples CacheBuckets.warm jsBuckets))) \<and>
     mset (not_null (map RawSample.load (all_samples jsBuckets))) =
       mset (not_null (map RawSample.load (state_samples CacheBuckets.cold jsBuckets))) +
       mset (not_null (map RawSample.load (state_samples CacheBuckets.warm jsBuckets))) \<and>
     Stat.fcp (BrowserStats.cold bs) =
       avg (not_null (map RawSample.fcp (state_samples CacheBuckets.cold jsBuckets))) \<and>
     Stat.load (BrowserStats.cold bs) =
       avg (not_null (map RawSample.load (state_samples CacheBuckets.cold jsBuckets))) \<and>
     Stat.fcp (BrowserStats.warm bs) =
       avg (not_null (map RawSample.fcp (state_samples CacheBuckets.warm jsBuckets))) \<and>
     Stat.load (BrowserStats.warm bs) =
       avg (not_null (map RawSample.load (state_samples CacheBuckets.warm jsBuckets)))"
proof -
  from assms(1) have "calculateCumulativeStats data \<noteq> Inl TypeError"
    by (simp add: calculateCumulativeStats_result)
  then obtain stats where stats: "calculateCumulativeStats data = Inr stats"
    by (cases "calculateCumulativeStats data") (simp_all add: error_TypeError)
  from calculateCumulativeStats_lookup [OF stats assms(2) assms(3)]
  obtain p where p: "collect_js jsBuckets empty_pools = Inr p"
    and bs: "map_of stats browser = Some (browser_stats p)" by blast
  have 1: "Stat.fcp (overall (browser_stats p)) = avg (not_null (map RawSample.fcp (all_samples jsBuckets)))"
    by (simp add: browser_stats_def collect_js_allFcps [OF p])
  have 2: "Stat.load (overall (browser_stats p)) = avg (not_null (map RawSample.load (all_samples jsBuckets)))"
    by (simp add: browser_stats_def collect_js_allLoads [OF p])
  have 3: "mset (not_null (map RawSample.fcp (all_samples jsBuckets))) =
       mset (not_null (map RawSample.fcp (state_samples CacheBuckets.cold jsBuckets))) +
       mset (not_null (map RawSample.fcp (state_samples CacheBuckets.warm jsBuckets)))"
    by (simp only: mset_pool_split mset_append)
  have 4: "mset (not_null (map RawSample.load (all_samples jsBuckets))) =
       mset (not_null (map RawSample.load (state_samples CacheBuckets.cold jsBuckets))) +
       mset (not_null (map RawSample.load (state_samples CacheBuckets.warm jsBuckets)))"
    by (simp only: mset_pool_split mset_append)
  have 5: "Stat.fcp (BrowserStats.cold (browser_stats p)) = avg (not_null (map RawSample.fcp (state_samples CacheBuckets.cold jsBuckets)))"
    by (simp add: browser_stats_def collect_js_coldFcps [OF p])
  have 6: "Stat.load (BrowserStats.cold (browser_stats p)) = avg (not_null (map RawSample.load (state_samples CacheBuckets.cold jsBuckets)))"
    by (simp add: browser_stats_def collect_js_coldLoads [OF p])
  have 7: "Stat.fcp (BrowserStats.warm (browser_stats p)) = avg (not_null (map RawSample.fcp (state_samples CacheBuckets.warm jsBuckets)))"
    by (simp add: browser_stats_def collect_js_warmFcps [OF p])
  have 8: "Stat.load (BrowserStats.warm (browser_stats p)) = avg (not_null (map RawSample.load (state_samples CacheBuckets.warm jsBuckets)))"
    by (simp add: browser_stats_def collect_js_warmLoads [OF p])
  from stats bs 1 2 3 4 5 6 7 8 show ?thesis
    by (intro exI [of _ stats] exI [of _ "browser_stats p"] conjI)
qed

theorem overall_is_pooled_mean_witness:
  "list_all complete (leaves full_tree) \<and> distinct (map fst full_tree) \<and>
   (''Chrome'', chrome_buckets) \<in> set full_tree \<and>
   (\<exists>stats bs. calculateCumulativeStats full_tree = Inr stats \<and>
      map_of stats ''Chrome'' = Some bs \<and>
      Stat.fcp (overall bs) = Some 185 \<and> Stat.fcp (BrowserStats.cold bs) = Some 250 \<and>
      Stat.fcp (BrowserStats.warm bs) = Some 55 \<and> (250 + 55) / 2 \<noteq> (185 :: rat))"
proof -
  have h1: "list_all complete (leaves full_tree)"
    by (simp add: full_tree_def chrome_buckets_def firefox_buckets_def leaves_def js_leaves_def
        complete_def)
  have h2: "distinct (map fst full_tree)" by (simp add: full_tree_def)
  have h3: "(''Chrome'', chrome_buckets) \<in> set full_tree" by (simp add: full_tree_def)
  have s: "all_samples chrome_buckets = cold_samples @ warm_samples @ other_samples"
    "state_samples CacheBuckets.cold chrome_buckets = cold_samples @ other_samples"
    "state_samples CacheBuckets.warm chrome_buckets = warm_samples"
    by (simp_all add: all_samples_def state_samples_def chrome_buckets_def js_leaves_def)
  have v: "avg (not_null (map RawSample.fcp (cold_samples @ warm_samples @ other_samples))) = Some 185"
    "avg (not_null (map RawSample.fcp (cold_samples @ other_samples))) = Some 250"
    "avg (not_null (map RawSample.fcp warm_samples)) = Some 55"
    by (simp_all add: avg_def not_null_def cold_samples_def warm_samples_def other_samples_def)
  from overall_is_pooled_mean [OF h1 h2 h3]
  obtain stats bs where "calculateCumulativeStats full_tree = Inr stats"
    and "map_of stats ''Chrome'' = Some bs"
    and "Stat.fcp (overall bs) = avg (not_null (map RawSample.fcp (all_samples chrome_buckets)))"
    and "Stat.fcp (BrowserStats.cold bs) =
       avg (not_null (map RawSample.fcp (state_samples CacheBuckets.cold chrome_buckets)))"
    and "Stat.fcp (BrowserStats.warm bs) =
       avg (not_null (map RawSample.fcp (state_samples CacheBuckets.warm chrome_buckets)))"
    by (elim exE conjE)
  with h1 h2 h3 show ?thesis by (simp only: s v) simp
qed

section \<open>Scenario averages\<close>

lemmas example_defs =
  full_tree_def chrome_buckets_def firefox_buckets_def cold_samples_def warm_samples_def
  other_samples_def

lemma full_tree_complete: "list_all complete (leaves full_tree)"
  by (simp add: full_tree_def chrome_buckets_def firefox_buckets_def leaves_def js_leaves_def
      complete_def)





text \<open>
  Claim C10. Every warm entry that \<^verbatim>\<open>calculateMetricsData\<close> returns, one for each leaf,
  has \<^verbatim>\<open>browser_start_time\<close> null, whatever the warm samples hold.
\<close>

theorem warm_browser_start_time_null:
  "calculateMetricsData data = Inr r \<Longrightarrow>
   map MetricsEntry.browser_start_time (MetricsData.warm r) = replicate (length (leaves data)) None"
proof -
  assume a: "calculateMetricsData data = Inr r"
  then have c: "list_all complete (leaves data)"
    by (simp add: calculateMetricsData_eq split: if_splits)
  with a have r: "MetricsData.warm r =
      map (\<lambda>(l, cb). warmMetrics l (the (CacheBuckets.warm cb))) (labelled_leaves data)"
    by (auto simp: calculateMetricsData_eq)
  have "length (labelled_leaves data) = length (leaves data)"
    using arg_cong [OF snd_labelled_leaves, of length data] by simp
  then show ?thesis
    by (simp add: r warmMetrics_def split_def comp_def map_replicate_const)
qed

theorem warm_browser_start_time_null_witness:
  "calculateMetricsData full_tree = Inr (projr (calculateMetricsData full_tree)) \<and>
   RawSample.browser_start_time (hd warm_samples) = Some 5 \<and>
   map MetricsEntry.browser_start_time (MetricsData.warm (projr (calculateMetricsData full_tree))) =
     [None, None, None, None]"
proof -
  have h: "calculateMetricsData full_tree = Inr (projr (calculateMetricsData full_tree))"
    using full_tree_complete by (simp add: calculateMetricsData_eq)
  have l: "length (leaves full_tree) = 4"
    by (simp add: leaves_def js_leaves_def full_tree_def chrome_buckets_def firefox_buckets_def)
  have r: "replicate 4 None = [None, None, None, None :: jsnum]" by (simp add: numeral_eq_Suc)
  from warm_browser_start_time_null [OF h] h show ?thesis
    by (simp only: l r) (simp add: warm_samples_def)
qed

section \<open>The order of the trials\<close>

text \<open>What \<open>calculateMetricsData_by\<close> returns, for any mean function.\<close>

lemma metrics_sites_by_eq:
  "metrics_sites_by av browser jsLabel sites acc =
     (if list_all complete (map snd sites)
      then Inr \<lparr>MetricsData.cold = MetricsData.cold acc @
                   map (\<lambda>(url, cb). coldMetrics_by av (make_label browser jsLabel url) (the (CacheBuckets.cold cb))) sites,
                MetricsData.warm = MetricsData.warm acc @
                   map (\<lambda>(url, cb). warmMetrics_by av (make_label browser jsLabel url) (the (CacheBuckets.warm cb))) sites\<rparr>
      else Inl TypeError)"
proof (induction sites arbitrary: acc)
  case Nil
  then show ?case by simp
next
  case (Cons s sites)
  obtain url cb where s: "s = (url, cb)" by (cases s)
  show ?case
    by (cases "CacheBuckets.cold cb"; cases "CacheBuckets.warm cb")
       (simp_all add: s Cons.IH metrics_site_by_def complete_def)
qed

lemma metrics_js_by_eq:
  "metrics_js_by av browser jsBuckets acc =
     (if list_all complete (js_leaves jsBuckets)
      then Inr \<lparr>MetricsData.cold = MetricsData.cold acc @
                   map (\<lambda>(l, cb). coldMetrics_by av l (the (CacheBuckets.cold cb))) (js_labelled_leaves browser jsBuckets),
                MetricsData.warm = MetricsData.warm acc @
                   map (\<lambda>(l, cb). warmMetrics_by av l (the (CacheBuckets.warm cb))) (js_labelled_leaves browser jsBuckets)\<rparr>
      else Inl TypeError)"
proof (induction jsBuckets arbitrary: acc)
  case Nil
  then show ?case by (simp add: js_leaves_def js_labelled_leaves_def)
next
  case (Cons j jsBuckets)
  obtain jsLabel sites where j: "j = (jsLabel, sites)" by (cases j)
  have l: "js_leaves ((jsLabel, sites) # jsBuckets) = map snd sites @ js_leaves jsBuckets"
    by (simp add: js_leaves_def)
  have ll: "js_labelled_leaves browser ((jsLabel, sites) # jsBuckets) =
      map (\<lambda>(url, cb). (make_label browser jsLabel url, cb)) sites @ js_labelled_leaves browser jsBuckets"
    by (simp add: js_labelled_leaves_def)
  show ?case
    by (simp add: j l ll metrics_sites_by_eq Cons.IH split_def comp_def)
qed

lemma metrics_browsers_by_eq:
  "metrics_browsers_by av data acc =
     (if list_all complete (leaves data)
      then Inr \<lparr>MetricsData.cold = MetricsData.cold acc @
                   map (\<lambda>(l, cb). coldMetrics_by av l (the (CacheBuckets.cold cb))) (labelled_leaves data),
                MetricsData.warm = MetricsData.warm acc @
                   map (\<lambda>(l, cb). warmMetrics_by av l (the (CacheBuckets.warm cb))) (labelled_leaves data)\<rparr>
      else Inl TypeError)"
proof (induction data arbitrary: acc)
  case Nil
  then show ?case by (simp add: leaves_def labelled_leaves_def)
next
  case (Cons b data)
  obtain browser jsBuckets where b: "b = (browser, jsBuckets)" by (cases b)
  have l: "leaves ((browser, jsBuckets) # data) = js_leaves jsBuckets @ leaves data"
    by (simp add: leaves_def)
  have ll: "labelled_leaves ((browser, jsBuckets) # data) = js_labelled_leaves browser jsBuckets @ labelled_leaves data"
    by (simp add: labelled_leaves_def)
  show ?case
    by (simp add: b l ll metrics_js_by_eq Cons.IH)
qed

lemma calculateMetricsData_by_eq:
  "calculateMetricsData_by av data =
     (if list_all complete (leaves data)
      then Inr \<lparr>MetricsData.cold =
                   map (\<lambda>(l, cb). coldMetrics_by av l (the (CacheBuckets.cold cb))) (labelled_leaves data),
                MetricsData.warm =
                   map (\<lambda>(l, cb). warmMetrics_by av l (the (CacheBuckets.warm cb))) (labelled_leaves data)\<rparr>
      else Inl TypeError)"
  by (simp add: calculateMetricsData_by_def metrics_browsers_by_eq)

lemma calculateMetricsData_by_avg: "calculateMetricsData_by avg data = calculateMetricsData data"
proof -
  have "coldMetrics_by avg = coldMetrics" "warmMetrics_by avg = warmMetrics"
    by (simp_all add: fun_eq_iff coldMetrics_by_def coldMetrics_def warmMetrics_by_def warmMetrics_def)
  then show ?thesis by (simp add: calculateMetricsData_by_eq calculateMetricsData_eq)
qed

text \<open>The labelled leaves of two trees that differ in the order of the trials.\<close>

lemma perm_sites_labelled:
  "perm_sites s s' \<Longrightarrow>
   list_all2 perm_leaf (map (\<lambda>(url, cb). (make_label browser jsLabel url, cb)) s)
                       (map (\<lambda>(url, cb). (make_label browser jsLabel url, cb)) s')"
  unfolding perm_sites_def
  by (induction rule: list_all2_induct) (auto simp: perm_leaf_def)

lemma perm_js_labelled:
  "perm_js j j' \<Longrightarrow> list_all2 perm_leaf (js_labelled_leaves browser j) (js_labelled_leaves browser j')"
  unfolding perm_js_def
proof (induction rule: list_all2_induct)
  case Nil
  then show ?case by (simp add: js_labelled_leaves_def)
next
  case (Cons x xs y ys)
  obtain jl a where x: "x = (jl, a)" by (cases x)
  obtain jl' b where y: "y = (jl', b)" by (cases y)
  from Cons.hyps(1) have u: "jl' = jl" and p: "perm_sites a b" by (simp_all add: x y)
  have l: "js_labelled_leaves browser ((jl, a) # xs) =
      map (\<lambda>(url, cb). (make_label browser jl url, cb)) a @ js_labelled_leaves browser xs"
    "js_labelled_leaves browser ((jl, b) # ys) =
      map (\<lambda>(url, cb). (make_label browser jl url, cb)) b @ js_labelled_leaves browser ys"
    by (simp_all add: js_labelled_leaves_def)
  show ?case unfolding x y u l
    by (rule list_all2_appendI [OF perm_sites_labelled [OF p] Cons.IH])
qed

lemma perm_tree_labelled:
  "perm_tree t t' \<Longrightarrow> list_all2 perm_leaf (labelled_leaves t) (labelled_leaves t')"
  unfolding perm_tree_def
proof (induction rule: list_all2_induct)
  case Nil
  then show ?case by (simp add: labelled_leaves_def)
next
  case (Cons x xs y ys)
  obtain br a where x: "x = (br, a)" by (cases x)
  obtain br' b where y: "y = (br', b)" by (cases y)
  from Cons.hyps(1) have u: "br' = br" and p: "perm_js a b" by (simp_all add: x y)
  have l: "labelled_leaves ((br, a) # xs) = js_labelled_leaves br a @ labelled_leaves xs"
    "labelled_leaves ((br, b) # ys) = js_labelled_leaves br b @ labelled_leaves ys"
    by (simp_all add: labelled_leaves_def)
  show ?case unfolding x y u l
    by (rule list_all2_appendI [OF perm_js_labelled [OF p] Cons.IH])
qed

lemma avg_double_perm:
  assumes "mset xs = mset ys" and "sum_exact xs" and "sum_exact ys"
  shows "avg_double xs = avg_double ys"
proof -
  have "sum_mset (mset xs) = sum_mset (mset ys)" by (simp only: assms(1))
  then have s: "sum_list xs = sum_list ys" by (simp only: sum_mset_sum_list)
  have "size (mset xs) = size (mset ys)" by (simp only: assms(1))
  then have l: "length xs = length ys" by (simp only: size_mset)
  from sum_exact_foldl [OF assms(2)] sum_exact_foldl [OF assms(3)] s l show ?thesis
    by (simp add: avg_double_def)
qed

lemma avg_double_field_perm:
  assumes "mset c = mset c'" and "sum_exact (not_null (map f c))" and "sum_exact (not_null (map f c'))"
  shows "avg_double (not_null (map f c)) = avg_double (not_null (map f c'))"
  by (rule avg_double_perm [OF not_null_mset [OF assms(1)] assms(2,3)])

lemma perm_leaf_metrics:
  assumes "perm_leaf x y" and "complete (snd x)" and "exact_leaf (snd x)" and "exact_leaf (snd y)"
  shows "(\<lambda>(l, cb). coldMetrics_by avg_double l (the (CacheBuckets.cold cb))) x =
         (\<lambda>(l, cb). coldMetrics_by avg_double l (the (CacheBuckets.cold cb))) y"
    and "(\<lambda>(l, cb). warmMetrics_by avg_double l (the (CacheBuckets.warm cb))) x =
         (\<lambda>(l, cb). warmMetrics_by avg_double l (the (CacheBuckets.warm cb))) y"
    and "complete (snd y)"
proof -
  obtain l a where x: "x = (l, a)" by (cases x)
  obtain l' b where y: "y = (l', b)" by (cases y)
  from assms(1) have ll: "l' = l" and pc: "perm_samples (CacheBuckets.cold a) (CacheBuckets.cold b)"
    and pw: "perm_samples (CacheBuckets.warm a) (CacheBuckets.warm b)"
    by (simp_all add: perm_leaf_def x y perm_buckets_def)
  from assms(2) obtain ca wa where ca: "CacheBuckets.cold a = Some ca" and wa: "CacheBuckets.warm a = Some wa"
    by (auto simp: x complete_def)
  from pc ca obtain cb where cb: "CacheBuckets.cold b = Some cb" and mc: "mset ca = mset cb"
    by (cases "CacheBuckets.cold b") (simp_all add: perm_samples_def)
  from pw wa obtain wb where wb: "CacheBuckets.warm b = Some wb" and mw: "mset wa = mset wb"
    by (cases "CacheBuckets.warm b") (simp_all add: perm_samples_def)
  from assms(3) have ea: "sum_exact (not_null (map RawSample.browser_start_time ca))"
    "sum_exact (not_null (map RawSample.fcp ca))"
    "sum_exact (not_null (map RawSample.dom_interactive ca))"
    "sum_exact (not_null (map RawSample.dom_content_loaded ca))"
    "sum_exact (not_null (map RawSample.load ca))"
    "sum_exact (not_null (map RawSample.fcp wa))"
    "sum_exact (not_null (map RawSample.dom_interactive wa))"
    "sum_exact (not_null (map RawSample.dom_content_loaded wa))"
    "sum_exact (not_null (map RawSample.load wa))"
    by (simp_all add: x exact_leaf_def ca wa)
  from assms(4) have eb: "sum_exact (not_null (map RawSample.browser_start_time cb))"
    "sum_exact (not_null (map RawSample.fcp cb))"
    "sum_exact (not_null (map RawSample.dom_interactive cb))"
    "sum_exact (not_null (map RawSample.dom_content_loaded cb))"
    "sum_exact (not_null (map RawSample.load cb))"
    "sum_exact (not_null (map RawSample.fcp wb))"
    "sum_exact (not_null (map RawSample.dom_interactive wb))"
    "sum_exact (not_null (map RawSample.dom_content_loaded wb))"
    "sum_exact (not_null (map RawSample.load wb))"
    by (simp_all add: y exact_leaf_def cb wb)
  show "(\<lambda>(l, cb). coldMetrics_by avg_double l (the (CacheBuckets.cold cb))) x =
         (\<lambda>(l, cb). coldMetrics_by avg_double l (the (CacheBuckets.cold cb))) y"
    by (simp add: x y ll ca cb coldMetrics_by_def
        avg_double_field_perm [OF mc ea(1) eb(1)] avg_double_field_perm [OF mc ea(2) eb(2)]
        avg_double_field_perm [OF mc ea(3) eb(3)] avg_double_field_perm [OF mc ea(4) eb(4)]
        avg_double_field_perm [OF mc ea(5) eb(5)])
  show "(\<lambda>(l, cb). warmMetrics_by avg_double l (the (CacheBuckets.warm cb))) x =
         (\<lambda>(l, cb). warmMetrics_by avg_double l (the (CacheBuckets.warm cb))) y"
    by (simp add: x y ll wa wb warmMetrics_by_def
        avg_double_field_perm [OF mw ea(6) eb(6)] avg_double_field_perm [OF mw ea(7) eb(7)]
        avg_double_field_perm [OF mw ea(8) eb(8)] avg_double_field_perm [OF mw ea(9) eb(9)])
  show "complete (snd y)" by (simp add: y complete_def cb wb)
qed

lemma perm_leaves_maps:
  assumes "list_all2 perm_leaf xs ys"
    and "list_all complete (map snd xs)"
    and "list_all exact_leaf (map snd xs)" and "list_all exact_leaf (map snd ys)"
  shows "map (\<lambda>(l, cb). coldMetrics_by avg_double l (the (CacheBuckets.cold cb))) xs =
         map (\<lambda>(l, cb). coldMetrics_by avg_double l (the (CacheBuckets.cold cb))) ys \<and>
         map (\<lambda>(l, cb). warmMetrics_by avg_double l (the (CacheBuckets.warm cb))) xs =
         map (\<lambda>(l, cb). warmMetrics_by avg_double l (the (CacheBuckets.warm cb))) ys \<and>
         list_all complete (map snd ys)"
  using assms
proof (induction rule: list_all2_induct)
  case Nil
  then show ?case by simp
next
  case (Cons x xs y ys)
  from Cons.prems have cx: "complete (snd x)" and ex: "exact_leaf (snd x)" and ey: "exact_leaf (snd y)"
    and rest: "list_all complete (map snd xs)" "list_all exact_leaf (map snd xs)"
      "list_all exact_leaf (map snd ys)"
    by simp_all
  note m = perm_leaf_metrics [OF Cons.hyps(1) cx ex ey]
  from Cons.IH [OF rest] m show ?case by simp
qed

lemma perm_complete_back:
  assumes "list_all2 perm_leaf xs ys" and "list_all complete (map snd ys)"
  shows "list_all complete (map snd xs)"
  using assms
proof (induction rule: list_all2_induct)
  case Nil
  then show ?case by simp
next
  case (Cons x xs y ys)
  obtain l a where x: "x = (l, a)" by (cases x)
  obtain l' b where y: "y = (l', b)" by (cases y)
  from Cons.hyps(1) have pc: "perm_samples (CacheBuckets.cold a) (CacheBuckets.cold b)"
    and pw: "perm_samples (CacheBuckets.warm a) (CacheBuckets.warm b)"
    by (simp_all add: perm_leaf_def x y perm_buckets_def)
  from Cons.prems have cy: "complete b" and rest: "list_all complete (map snd ys)" by (simp_all add: y)
  have "complete a" using pc pw cy
    by (cases "CacheBuckets.cold a"; cases "CacheBuckets.warm a";
        cases "CacheBuckets.cold b"; cases "CacheBuckets.warm b")
       (simp_all add: complete_def perm_samples_def)
  with Cons.IH [OF rest] show ?case by (simp add: x)
qed

lemma collected_tree_reordered: "perm_tree collected_tree reordered_tree"
  by (simp add: perm_tree_def perm_js_def perm_sites_def perm_buckets_def perm_samples_def
      collected_tree_def reordered_tree_def collected_buckets_def list.rel_refl)

lemma drift_tree_perm: "perm_tree (drift_tree drift_samples) (drift_tree (rev drift_samples))"
  by (simp add: perm_tree_def perm_js_def perm_sites_def perm_buckets_def perm_samples_def
      drift_tree_def empty_buckets_def)

text \<open>
  Claim C8, as amended. Permuting the samples inside the leaves of a tree, in one leaf
  or in several, does not change what \<^verbatim>\<open>calculateMetricsData\<close> returns, provided that in
  both orders every sum of a field over a leaf is computed without a rounding error.
\<close>

theorem trial_order_exact_sums:
  assumes "perm_tree data data'"
    and "list_all exact_leaf (leaves data)" and "list_all exact_leaf (leaves data')"
  shows "calculateMetricsData_by avg_double data = calculateMetricsData_by avg_double data'"
proof -
  note p = perm_tree_labelled [OF assms(1)]
  have e: "list_all exact_leaf (map snd (labelled_leaves data))"
    "list_all exact_leaf (map snd (labelled_leaves data'))"
    using assms(2,3) by (simp_all only: snd_labelled_leaves)
  show ?thesis
  proof (cases "list_all complete (leaves data)")
    case True
    then have c: "list_all complete (map snd (labelled_leaves data))"
      by (simp only: snd_labelled_leaves)
    from perm_leaves_maps [OF p c e] True show ?thesis
      by (simp add: calculateMetricsData_by_eq snd_labelled_leaves)
  next
    case False
    have "\<not> list_all complete (leaves data')"
    proof
      assume "list_all complete (leaves data')"
      then have "list_all complete (map snd (labelled_leaves data'))"
        by (simp only: snd_labelled_leaves)
      from perm_complete_back [OF p this] False show False by (simp add: snd_labelled_leaves)
    qed
    with False show ?thesis by (simp add: calculateMetricsData_by_eq)
  qed
qed

theorem trial_order_exact_sums_witness:
  "perm_tree collected_tree reordered_tree \<and> collected_tree \<noteq> reordered_tree \<and>
   list_all exact_leaf (leaves collected_tree) \<and> list_all exact_leaf (leaves reordered_tree) \<and>
   calculateMetricsData_by avg_double collected_tree =
     calculateMetricsData_by avg_double reordered_tree"
proof -
  have "cold_samples \<noteq> rev cold_samples" by (simp add: cold_samples_def)
  then have n: "collected_tree \<noteq> reordered_tree"
    by (simp add: collected_tree_def reordered_tree_def collected_buckets_def)
  have e: "list_all exact_leaf (leaves collected_tree)" by code_simp
  have e': "list_all exact_leaf (leaves reordered_tree)" by code_simp
  from trial_order_exact_sums [OF collected_tree_reordered e e'] collected_tree_reordered n e e'
  show ?thesis by simp
qed

text \<open>
  Claim C8 as it is stated fails when a sum is rounded. With the cold FCP samples
  787.7, 1263.4, 1390.8 of one leaf the mean that is returned is 1147.3000000000002;
  with the same samples in the reverse order it is 1147.3.
\<close>

theorem trial_order_counterexample:
  "perm_tree (drift_tree drift_samples) (drift_tree (rev drift_samples)) \<and>
   map MetricsEntry.fcp
     (MetricsData.cold (projr (calculateMetricsData_by avg_double (drift_tree drift_samples)))) =
     [Some (1261469690547405 / 1099511627776), None, None, None] \<and>
   map MetricsEntry.fcp
     (MetricsData.cold (projr (calculateMetricsData_by avg_double (drift_tree (rev drift_samples))))) =
     [Some (5045878762189619 / 4398046511104), None, None, None] \<and>
   (1261469690547405 / 1099511627776 :: rat) \<noteq> 5045878762189619 / 4398046511104"
proof -
  have 1: "map MetricsEntry.fcp
     (MetricsData.cold (projr (calculateMetricsData_by avg_double (drift_tree drift_samples)))) =
     [Some (1261469690547405 / 1099511627776), None, None, None]" by code_simp
  have 2: "map MetricsEntry.fcp
     (MetricsData.cold (projr (calculateMetricsData_by avg_double (drift_tree (rev drift_samples))))) =
     [Some (5045878762189619 / 4398046511104), None, None, None]" by code_simp
  have 3: "(1261469690547405 / 1099511627776 :: rat) \<noteq> 5045878762189619 / 4398046511104"
    by simp
  from drift_tree_perm 1 2 3 show ?thesis by (intro conjI)
qed

section \<open>Trees with missing keys\<close>

lemma calculateMetricsData_result:
  "calculateMetricsData data = Inl TypeError \<longleftrightarrow> \<not> list_all complete (leaves data)"
  by (simp add: calculateMetricsData_eq)

lemma Inr_iff_not_TypeError: "(\<exists>r. x = Inr r) \<longleftrightarrow> x \<noteq> Inl TypeError"
  by (cases x) (simp_all add: error_TypeError)

text \<open>
  Claim C6, as amended. \<^verbatim>\<open>calculateMetricsData\<close> and \<^verbatim>\<open>calculateCumulativeStats\<close> throw,
  with the TypeError of the failed property read, exactly when some leaf of the tree
  lacks the key \<^verbatim>\<open>cold\<close> or the key \<^verbatim>\<open>warm\<close>. In every other case, so also when a
  browser, a JS state or a URL is missing, they return a result for the keys that are
  present: one cold and one warm entry for each leaf, and statistics for exactly the
  browsers of the tree.
\<close>

theorem aggregator_fails_only_on_missing_cache_key:
  "(calculateMetricsData data = Inl TypeError \<longleftrightarrow> \<not> list_all complete (leaves data)) \<and>
   ((\<exists>r. calculateMetricsData data = Inr r \<and> length (MetricsData.cold r) = length (leaves data) \<and>
         length (MetricsData.warm r) = length (leaves data))
      \<longleftrightarrow> list_all complete (leaves data)) \<and>
   (calculateCumulativeStats data = Inl TypeError \<longleftrightarrow> \<not> list_all complete (leaves data)) \<and>
   ((\<exists>stats. calculateCumulativeStats data = Inr stats \<and> map fst stats = map fst data)
      \<longleftrightarrow> list_all complete (leaves data))"
proof -
  have l: "length (labelled_leaves data) = length (leaves data)"
    using arg_cong [OF snd_labelled_leaves, of length data] by simp
  have 2: "(\<exists>r. calculateMetricsData data = Inr r \<and> length (MetricsData.cold r) = length (leaves data) \<and>
         length (MetricsData.warm r) = length (leaves data)) \<longleftrightarrow> list_all complete (leaves data)"
    by (simp add: calculateMetricsData_eq l)
  have 4: "(\<exists>stats. calculateCumulativeStats data = Inr stats \<and> map fst stats = map fst data)
      \<longleftrightarrow> list_all complete (leaves data)"
  proof
    assume "\<exists>stats. calculateCumulativeStats data = Inr stats \<and> map fst stats = map fst data"
    then have "calculateCumulativeStats data \<noteq> Inl TypeError" by auto
    then show "list_all complete (leaves data)" by (simp add: calculateCumulativeStats_result)
  next
    assume "list_all complete (leaves data)"
    then have "calculateCumulativeStats data \<noteq> Inl TypeError"
      by (simp add: calculateCumulativeStats_result)
    then obtain stats where s: "calculateCumulativeStats data = Inr stats"
      using Inr_iff_not_TypeError [of "calculateCumulativeStats data"] by auto
    with calculateCumulativeStats_keys [OF s]
    show "\<exists>stats. calculateCumulativeStats data = Inr stats \<and> map fst stats = map fst data"
      by simp
  qed
  from calculateMetricsData_result 2 calculateCumulativeStats_result 4 show ?thesis
    by (intro conjI)
qed

theorem aggregator_fails_only_on_missing_cache_key_witness:
  "\<not> list_all complete (leaves missing_warm_tree) \<and>
   calculateMetricsData missing_warm_tree = Inl TypeError \<and>
   calculateCumulativeStats missing_warm_tree = Inl TypeError \<and>
   list_all complete (leaves full_tree) \<and>
   (\<exists>stats. calculateCumulativeStats full_tree = Inr stats \<and> map fst stats = [''Chrome'', ''Firefox''])"
proof -
  have m: "\<not> list_all complete (leaves missing_warm_tree)"
    by (simp add: missing_warm_tree_def leaves_def js_leaves_def complete_def)
  have k: "map fst full_tree = [''Chrome'', ''Firefox'']" by (simp add: full_tree_def)
  from aggregator_fails_only_on_missing_cache_key [of missing_warm_tree]
    aggregator_fails_only_on_missing_cache_key [of full_tree] m full_tree_complete
  show ?thesis by (simp only: k) simp
qed

text \<open>
  Claim C6 as it is stated fails for a tree without the browser Firefox: both functions
  return a result computed from the entries of Chrome.
\<close>

theorem missing_browser_counterexample:
  "map_of chrome_only_tree ''Firefox'' = None \<and>
   map_of chrome_buckets ''JS_on'' \<noteq> None \<and> map_of chrome_buckets ''JS_off'' \<noteq> None \<and>
   calculateMetricsData chrome_only_tree =
     Inr \<lparr>MetricsData.cold =
            [\<lparr>label = ''Chrome JS_on example.com'', browser_start_time = Some 50, fcp = Some 200,
              dom_interactive = Some 250, dom_content_loaded = Some 240, load = Some 500\<rparr>,
             \<lparr>label = ''Chrome JS_off example.com'', browser_start_time = Some 30, fcp = Some 400,
              dom_interactive = None, dom_content_loaded = None, load = Some 700\<rparr>],
          MetricsData.warm =
            [\<lparr>label = ''Chrome JS_on example.com'', browser_start_time = None, fcp = Some 55,
              dom_interactive = Some 80, dom_content_loaded = Some 80, load = Some 100\<rparr>,
             \<lparr>label = ''Chrome JS_off example.com'', browser_start_time = None, fcp = None,
              dom_interactive = None, dom_content_loaded = None, load = None\<rparr>]\<rparr> \<and>
   calculateCumulativeStats chrome_only_tree =
     Inr [(''Chrome'',
           \<lparr>overall = \<lparr>fcp = Some 185, load = Some 400\<rparr>,
            jsOn = \<lparr>fcp = Some 142, load = Some 340\<rparr>,
            jsOff = \<lparr>fcp = Some 400, load = Some 700\<rparr>,
            cold = \<lparr>fcp = Some 250, load = Some 550\<rparr>,
            warm = \<lparr>fcp = Some 55, load = Some 100\<rparr>\<rparr>)]"
proof -
  have 1: "map_of chrome_only_tree ''Firefox'' = None" by (simp add: chrome_only_tree_def)
  have 2: "map_of chrome_buckets ''JS_on'' \<noteq> None" "map_of chrome_buckets ''JS_off'' \<noteq> None"
    by (simp_all add: chrome_buckets_def)
  have 3: "calculateMetricsData chrome_only_tree =
     Inr \<lparr>MetricsData.cold =
            [\<lparr>label = ''Chrome JS_on example.com'', browser_start_time = Some 50, fcp = Some 200,
              dom_interactive = Some 250, dom_content_loaded = Some 240, load = Some 500\<rparr>,
             \<lparr>label = ''Chrome JS_off example.com'', browser_start_time = Some 30, fcp = Some 400,
              dom_interactive = None, dom_content_loaded = None, load = Some 700\<rparr>],
          MetricsData.warm =
            [\<lparr>label = ''Chrome JS_on example.com'', browser_start_time = None, fcp = Some 55,
              dom_interactive = Some 80, dom_content_loaded = Some 80, load = Some 100\<rparr>,
             \<lparr>label = ''Chrome JS_off example.com'', browser_start_time = None, fcp = None,
              dom_interactive = None, dom_content_loaded = None, load = None\<rparr>]\<rparr>"
    by (simp add: calculateMetricsData_def metrics_site_def coldMetrics_def warmMetrics_def
        make_label_def avg_def not_null_def chrome_only_tree_def chrome_buckets_def
        cold_samples_def warm_samples_def other_samples_def)
  have 4: "calculateCumulativeStats chrome_only_tree =
     Inr [(''Chrome'',
           \<lparr>overall = \<lparr>fcp = Some 185, load = Some 400\<rparr>,
            jsOn = \<lparr>fcp = Some 142, load = Some 340\<rparr>,
            jsOff = \<lparr>fcp = Some 400, load = Some 700\<rparr>,
            cold = \<lparr>fcp = Some 250, load = Some 550\<rparr>,
            warm = \<lparr>fcp = Some 55, load = Some 100\<rparr>\<rparr>)]"
    by (simp add: collect_site_def browser_stats_def empty_pools_def Let_def
        avg_def not_null_def chrome_only_tree_def chrome_buckets_def
        cold_samples_def warm_samples_def other_samples_def)
  from 1 2 3 4 show ?thesis by (intro conjI)
qed

section \<open>Deltas\<close>

text \<open>
  Claim C1, as amended. When \<^verbatim>\<open>stats\<close> has the entries Chrome and Firefox,
  \<^verbatim>\<open>calculateDeltas\<close> returns a number in every delta field, also when an operand is
  null: the subtraction takes a null operand as 0. No delta is null.
\<close>

theorem deltas_are_numbers:
  assumes "map_of stats ''Chrome'' = Some c" and "map_of stats ''Firefox'' = Some f"
  shows "\<exists>d. calculateDeltas stats = Inr d \<and>
     Stat.fcp (Chrome (Deltas.jsOff d)) =
       Some (ToNumber (Stat.fcp (BrowserStats.jsOff c)) - ToNumber (Stat.fcp (jsOn c))) \<and>
     Stat.load (Chrome (Deltas.jsOff d)) =
       Some (ToNumber (Stat.load (BrowserStats.jsOff c)) - ToNumber (Stat.load (jsOn c))) \<and>
     Stat.fcp (Firefox (Deltas.jsOff d)) =
       Some (ToNumber (Stat.fcp (BrowserStats.jsOff f)) - ToNumber (Stat.fcp (jsOn f))) \<and>
     Stat.load (Firefox (Deltas.jsOff d)) =
       Some (ToNumber (Stat.load (BrowserStats.jsOff f)) - ToNumber (Stat.load (jsOn f))) \<and>
     Stat.fcp (Chrome (warmCache d)) =
       Some (ToNumber (Stat.fcp (BrowserStats.warm c)) - ToNumber (Stat.fcp (BrowserStats.cold c))) \<and>
     Stat.load (Chrome (warmCache d)) =
       Some (ToNumber (Stat.load (BrowserStats.warm c)) - ToNumber (Stat.load (BrowserStats.cold c))) \<and>
     Stat.fcp (Firefox (warmCache d)) =
       Some (ToNumber (Stat.fcp (BrowserStats.warm f)) - ToNumber (Stat.fcp (BrowserStats.cold f))) \<and>
     Stat.load (Firefox (warmCache d)) =
       Some (ToNumber (Stat.load (BrowserStats.warm f)) - ToNumber (Stat.load (BrowserStats.cold f))) \<and>
     Stat.fcp (firefoxVsChrome d) =
       Some (ToNumber (Stat.fcp (overall f)) - ToNumber (Stat.fcp (overall c))) \<and>
     Stat.load (firefoxVsChrome d) =
       Some (ToNumber (Stat.load (overall f)) - ToNumber (Stat.load (overall c))) \<and>
     ToNumber None = 0 \<and> (\<forall>x. ToNumber (Some x) = x)"
  using assms by (simp add: calculateDeltas_def deltas_of_def js_sub_def ToNumber_def)

theorem deltas_are_numbers_witness:
  "map_of stats_no_warm ''Chrome'' \<noteq> None \<and> map_of stats_no_warm ''Firefox'' \<noteq> None \<and>
   (\<exists>d. calculateDeltas stats_no_warm = Inr d \<and>
      Stat.fcp (Chrome (warmCache d)) = Some (- 1000) \<and>
      Stat.load (Chrome (warmCache d)) = Some (- 2000) \<and>
      Stat.fcp (Firefox (warmCache d)) = Some (- 400))"
proof -
  let ?c = "\<lparr>overall = \<lparr>fcp = Some 1000, load = Some 2000\<rparr>,
         jsOn = \<lparr>fcp = Some 1100, load = Some 2100\<rparr>,
         jsOff = \<lparr>fcp = Some 900, load = Some 1900\<rparr>,
         cold = \<lparr>fcp = Some 1000, load = Some 2000\<rparr>,
         warm = \<lparr>fcp = None, load = None\<rparr>\<rparr>"
  let ?f = "\<lparr>overall = \<lparr>fcp = Some 1200, load = Some 2200\<rparr>,
         jsOn = \<lparr>fcp = Some 1300, load = Some 2300\<rparr>,
         jsOff = \<lparr>fcp = Some 1100, load = Some 2100\<rparr>,
         cold = \<lparr>fcp = Some 1400, load = Some 2400\<rparr>,
         warm = \<lparr>fcp = Some 1000, load = Some 2000\<rparr>\<rparr>"
  have c: "map_of stats_no_warm ''Chrome'' = Some ?c" by (simp add: stats_no_warm_def)
  have f: "map_of stats_no_warm ''Firefox'' = Some ?f" by (simp add: stats_no_warm_def)
  from deltas_are_numbers [OF c f]
  obtain d where "calculateDeltas stats_no_warm = Inr d"
    and "Stat.fcp (Chrome (warmCache d)) =
       Some (ToNumber (Stat.fcp (BrowserStats.warm ?c)) - ToNumber (Stat.fcp (BrowserStats.cold ?c)))"
    and "Stat.load (Chrome (warmCache d)) =
       Some (ToNumber (Stat.load (BrowserStats.warm ?c)) - ToNumber (Stat.load (BrowserStats.cold ?c)))"
    and "Stat.fcp (Firefox (warmCache d)) =
       Some (ToNumber (Stat.fcp (BrowserStats.warm ?f)) - ToNumber (Stat.fcp (BrowserStats.cold ?f)))"
    by (elim exE conjE)
  with c f show ?thesis by (simp add: ToNumber_def)
qed

text \<open>
  Claim C1 as it is stated fails when Chrome has a cold FCP mean of 1000 and no warm FCP
  mean: the warm-cache delta of Chrome is \<open>- 1000\<close>, not null.
\<close>

theorem null_operand_counterexample:
  "Stat.fcp (BrowserStats.cold (the (map_of stats_no_warm ''Chrome''))) = Some 1000 \<and>
   Stat.fcp (BrowserStats.warm (the (map_of stats_no_warm ''Chrome''))) = None \<and>
   calculateDeltas stats_no_warm =
     Inr \<lparr>jsOff =
            \<lparr>Chrome = \<lparr>fcp = Some (- 200), load = Some (- 200)\<rparr>,
             Firefox = \<lparr>fcp = Some (- 200), load = Some (- 200)\<rparr>\<rparr>,
          warmCache =
            \<lparr>Chrome = \<lparr>fcp = Some (- 1000), load = Some (- 2000)\<rparr>,
             Firefox = \<lparr>fcp = Some (- 400), load = Some (- 400)\<rparr>\<rparr>,
          firefoxVsChrome = \<lparr>fcp = Some 200, load = Some 200\<rparr>\<rparr>"
  by (simp add: calculateDeltas_def deltas_of_def js_sub_def ToNumber_def stats_no_warm_def)

text \<open>
  Claim C5. When every mean of Chrome and of Firefox is defined, \<^verbatim>\<open>calculateDeltas\<close>
  returns the three comparisons \<^verbatim>\<open>jsOff\<close>, \<^verbatim>\<open>warmCache\<close> and \<^verbatim>\<open>firefoxVsChrome\<close>, for
  FCP and for load: JS off minus JS on and warm minus cold for each browser, and the
  overall mean of Firefox minus the overall mean of Chrome.
\<close>

theorem deltas_of_defined_means:
  assumes "map_of stats ''Chrome'' =
      Some \<lparr>overall = \<lparr>fcp = Some c_all_f, load = Some c_all_l\<rparr>,
            jsOn = \<lparr>fcp = Some c_on_f, load = Some c_on_l\<rparr>,
            jsOff = \<lparr>fcp = Some c_off_f, load = Some c_off_l\<rparr>,
            cold = \<lparr>fcp = Some c_cold_f, load = Some c_cold_l\<rparr>,
            warm = \<lparr>fcp = Some c_warm_f, load = Some c_warm_l\<rparr>\<rparr>"
    and "map_of stats ''Firefox'' =
      Some \<lparr>overall = \<lparr>fcp = Some f_all_f, load = Some f_all_l\<rparr>,
            jsOn = \<lparr>fcp = Some f_on_f, load = Some f_on_l\<rparr>,
            jsOff = \<lparr>fcp = Some f_off_f, load = Some f_off_l\<rparr>,
            cold = \<lparr>fcp = Some f_cold_f, load = Some f_cold_l\<rparr>,
            warm = \<lparr>fcp = Some f_warm_f, load = Some f_warm_l\<rparr>\<rparr>"
  shows "calculateDeltas stats =
     Inr \<lparr>jsOff =
            \<lparr>Chrome = \<lparr>fcp = Some (c_off_f - c_on_f), load = Some (c_off_l - c_on_l)\<rparr>,
             Firefox = \<lparr>fcp = Some (f_off_f - f_on_f), load = Some (f_off_l - f_on_l)\<rparr>\<rparr>,
          warmCache =
            \<lparr>Chrome = \<lparr>fcp = Some (c_warm_f - c_cold_f), load = Some (c_warm_l - c_cold_l)\<rparr>,
             Firefox = \<lparr>fcp = Some (f_warm_f - f_cold_f), load = Some (f_warm_l - f_cold_l)\<rparr>\<rparr>,
          firefoxVsChrome = \<lparr>fcp = Some (f_all_f - c_all_f), load = Some (f_all_l - c_all_l)\<rparr>\<rparr>"
  using assms by (simp add: calculateDeltas_def deltas_of_def js_sub_def ToNumber_def)

theorem deltas_of_defined_means_witness:
  "map_of stats_defined ''Chrome'' \<noteq> None \<and> map_of stats_defined ''Firefox'' \<noteq> None \<and>
   calculateDeltas stats_defined =
     Inr \<lparr>jsOff =
            \<lparr>Chrome = \<lparr>fcp = Some (- 200), load = Some (- 200)\<rparr>,
             Firefox = \<lparr>fcp = Some (- 100), load = Some (- 200)\<rparr>\<rparr>,
          warmCache =
            \<lparr>Chrome = \<lparr>fcp = Some (- 400), load = Some (- 1000)\<rparr>,
             Firefox = \<lparr>fcp = Some (- 400), load = Some (- 400)\<rparr>\<rparr>,
          firefoxVsChrome = \<lparr>fcp = Some 100, load = Some 200\<rparr>\<rparr>"
proof -
  have c: "map_of stats_defined ''Chrome'' =
      Some \<lparr>overall = \<lparr>fcp = Some 500, load = Some 2000\<rparr>,
         jsOn = \<lparr>fcp = Some 600, load = Some 2100\<rparr>,
         jsOff = \<lparr>fcp = Some 400, load = Some 1900\<rparr>,
         cold = \<lparr>fcp = Some 700, load = Some 2500\<rparr>,
         warm = \<lparr>fcp = Some 300, load = Some 1500\<rparr>\<rparr>"
    by (simp add: stats_defined_def)
  have f: "map_of stats_defined ''Firefox'' =
      Some \<lparr>overall = \<lparr>fcp = Some 600, load = Some 2200\<rparr>,
         jsOn = \<lparr>fcp = Some 650, load = Some 2300\<rparr>,
         jsOff = \<lparr>fcp = Some 550, load = Some 2100\<rparr>,
         cold = \<lparr>fcp = Some 800, load = Some 2400\<rparr>,
         warm = \<lparr>fcp = Some 400, load = Some 2000\<rparr>\<rparr>"
    by (simp add: stats_defined_def)
  from deltas_of_defined_means [OF c f] c f show ?thesis by simp
qed

section \<open>The functions on a store compute the functions on values\<close>

lemma cell_at_append: "cell_at h v = Some c \<Longrightarrow> cell_at (h @ ext) v = Some c"
  by (auto simp: cell_at_def nth_append split: val.splits if_splits)

lemma those_map_mono:
  "(\<And>x y. x \<in> set xs \<Longrightarrow> f x = Some y \<Longrightarrow> g x = Some y) \<Longrightarrow>
   those (map f xs) = Some ys \<Longrightarrow> those (map g xs) = Some ys"
proof (induction xs arbitrary: ys)
  case Nil
  then show ?case by simp
next
  case (Cons x xs)
  from Cons.prems(2) obtain y ys' where y: "f x = Some y" and ys': "those (map f xs) = Some ys'"
    and ys: "ys = y # ys'"
    by (auto split: option.splits)
  from Cons.prems(1) y have "g x = Some y" by simp
  moreover from Cons.IH [OF _ ys'] Cons.prems(1) have "those (map g xs) = Some ys'" by simp
  ultimately show ?case by (simp add: ys)
qed

lemma read_sample_append: "read_sample h v = Some s \<Longrightarrow> read_sample (h @ ext) v = Some s"
proof -
  assume a: "read_sample h v = Some s"
  then obtain ps where "cell_at h v = Some (Obj ps)"
    by (auto simp: read_sample_def split: option.splits cell.splits)
  then have "cell_at (h @ ext) v = cell_at h v" by (simp add: cell_at_append)
  with a show ?thesis by (simp add: read_sample_def)
qed

lemma read_samples_append: "read_samples h v = Some ss \<Longrightarrow> read_samples (h @ ext) v = Some ss"
proof -
  assume a: "read_samples h v = Some ss"
  then obtain vs where c: "cell_at h v = Some (Arr vs)" and t: "those (map (read_sample h) vs) = Some ss"
    by (auto simp: read_samples_def split: option.splits cell.splits)
  have "those (map (read_sample (h @ ext)) vs) = Some ss"
    by (rule those_map_mono [OF _ t]) (rule read_sample_append)
  with cell_at_append [OF c] show ?thesis by (simp add: read_samples_def)
qed

lemma read_object_append: "read_object h v = Some ps \<Longrightarrow> read_object (h @ ext) v = Some ps"
proof -
  assume a: "read_object h v = Some ps"
  then obtain c where "cell_at h v = Some c"
    by (auto simp: read_object_def split: option.splits)
  then have "cell_at (h @ ext) v = cell_at h v" by (simp add: cell_at_append)
  with a show ?thesis by (simp add: read_object_def)
qed

lemma state_of_append:
  assumes "read_buckets h v = Some cb"
  shows "state_of (h @ ext) v ''cold'' =
           Some (case CacheBuckets.cold cb of None \<Rightarrow> Inl TypeError | Some c \<Rightarrow> Inr c)"
    and "state_of (h @ ext) v ''warm'' =
           Some (case CacheBuckets.warm cb of None \<Rightarrow> Inl TypeError | Some w \<Rightarrow> Inr w)"
proof -
  from assms obtain ps c w where ps: "read_object h v = Some ps"
    and c: "read_state h ps ''cold'' = Some c" and w: "read_state h ps ''warm'' = Some w"
    and cb: "cb = \<lparr>CacheBuckets.cold = c, CacheBuckets.warm = w\<rparr>"
    by (auto simp: read_buckets_def split: option.splits)
  note o = read_object_append [OF ps, of ext]
  show "state_of (h @ ext) v ''cold'' =
           Some (case CacheBuckets.cold cb of None \<Rightarrow> Inl TypeError | Some c \<Rightarrow> Inr c)"
    using c by (auto simp: state_of_def o cb read_state_def read_samples_append split: option.splits)
  show "state_of (h @ ext) v ''warm'' =
           Some (case CacheBuckets.warm cb of None \<Rightarrow> Inl TypeError | Some w \<Rightarrow> Inr w)"
    using w by (auto simp: state_of_def o cb read_state_def read_samples_append split: option.splits)
qed

lemma push_entry_cold:
  "push_entry (length h0) e (h0 @ [Entries c, Entries w]) = h0 @ [Entries (c @ [e]), Entries w]"
  by (simp add: push_entry_def nth_append list_update_append)

lemma push_entry_warm:
  "push_entry (Suc (length h0)) e (h0 @ [Entries c, Entries w]) = h0 @ [Entries c, Entries (w @ [e])]"
  by (simp add: push_entry_def nth_append list_update_append)

lemma metrics_site_st_post:
  assumes "read_buckets h0 v = Some cb"
  shows "metrics_post h0 (metrics_site browser jsLabel url cb \<lparr>MetricsData.cold = c, MetricsData.warm = w\<rparr>)
           (metrics_site_st browser jsLabel url v (length h0) (Suc (length h0))
              (h0 @ [Entries c, Entries w]))"
proof (cases "CacheBuckets.cold cb")
  case None
  then show ?thesis
    by (simp add: metrics_post_def metrics_site_def metrics_site_st_def state_of_append [OF assms])
next
  case c: (Some cs)
  show ?thesis
  proof (cases "CacheBuckets.warm cb")
    case None
    then show ?thesis using c
      by (simp add: metrics_post_def metrics_site_def metrics_site_st_def
          state_of_append [OF assms] push_entry_cold Let_def)
  next
    case (Some ws)
    then show ?thesis using c
      by (simp add: metrics_post_def metrics_site_def metrics_site_st_def
          state_of_append [OF assms] push_entry_cold push_entry_warm Let_def)
  qed
qed

lemma read_all_Nil: "read_all rd h [] = Some []"
  by (simp add: read_all_def)

lemma read_all_Cons:
  "read_all rd h ((k, v) # ps) = Some xs \<longleftrightarrow>
   (\<exists>x xs'. rd h v = Some x \<and> read_all rd h ps = Some xs' \<and> xs = (k, x) # xs')"
  by (auto simp: read_all_def split: option.splits)

lemma metrics_post_Inl:
  "metrics_post h0 (Inl e) res \<Longrightarrow> \<exists>h'. res = (Some (Inl e), h')"
  by (cases res) (auto simp: metrics_post_def)

lemma metrics_post_Inr:
  "metrics_post h0 (Inr acc) res \<Longrightarrow>
   res = (Some (Inr ()), h0 @ [Entries (MetricsData.cold acc), Entries (MetricsData.warm acc)])"
  by (cases res) (auto simp: metrics_post_def)

lemma metrics_sites_st_post:
  "read_all read_buckets h0 es = Some sites \<Longrightarrow>
   metrics_post h0 (metrics_sites browser jsLabel sites \<lparr>MetricsData.cold = c, MetricsData.warm = w\<rparr>)
     (metrics_sites_st browser jsLabel es (length h0) (Suc (length h0)) (h0 @ [Entries c, Entries w]))"
proof (induction es arbitrary: sites c w)
  case Nil
  then show ?case by (simp add: read_all_Nil metrics_post_def)
next
  case (Cons e es)
  obtain url v where e: "e = (url, v)" by (cases e)
  from Cons.prems obtain cb sites' where cb: "read_buckets h0 v = Some cb"
    and rest: "read_all read_buckets h0 es = Some sites'" and sites: "sites = (url, cb) # sites'"
    by (auto simp: e read_all_Cons)
  let ?pure = "metrics_site browser jsLabel url cb \<lparr>MetricsData.cold = c, MetricsData.warm = w\<rparr>"
  let ?st = "metrics_site_st browser jsLabel url v (length h0) (Suc (length h0)) (h0 @ [Entries c, Entries w])"
  have post: "metrics_post h0 ?pure ?st" by (rule metrics_site_st_post [OF cb])
  show ?case
  proof (cases ?pure)
    case (Inl err)
    with post obtain h' where "?st = (Some (Inl err), h')" using metrics_post_Inl by metis
    with post Inl show ?thesis by (simp add: e sites)
  next
    case (Inr acc)
    with post have st: "?st = (Some (Inr ()), h0 @ [Entries (MetricsData.cold acc), Entries (MetricsData.warm acc)])"
      using metrics_post_Inr by metis
    have acc: "\<lparr>MetricsData.cold = MetricsData.cold acc, MetricsData.warm = MetricsData.warm acc\<rparr> = acc"
      by simp
    from Cons.IH [OF rest, of "MetricsData.cold acc" "MetricsData.warm acc"]
    show ?thesis by (simp add: e sites Inr st acc)
  qed
qed

lemma read_entries_Some:
  "read_entries rd h v = Some xs \<Longrightarrow> \<exists>ps. read_object h v = Some ps \<and> read_all rd h ps = Some xs"
  by (auto simp: read_entries_def split: option.splits)

lemma metrics_js_st_post:
  "read_all read_sites h0 es = Some jsBuckets \<Longrightarrow>
   metrics_post h0 (metrics_js browser jsBuckets \<lparr>MetricsData.cold = c, MetricsData.warm = w\<rparr>)
     (metrics_js_st browser es (length h0) (Suc (length h0)) (h0 @ [Entries c, Entries w]))"
proof (induction es arbitrary: jsBuckets c w)
  case Nil
  then show ?case by (simp add: read_all_Nil metrics_post_def)
next
  case (Cons e es)
  obtain jsLabel v where e: "e = (jsLabel, v)" by (cases e)
  from Cons.prems obtain sites js' where s: "read_sites h0 v = Some sites"
    and rest: "read_all read_sites h0 es = Some js'" and js: "jsBuckets = (jsLabel, sites) # js'"
    by (auto simp: e read_all_Cons)
  from s obtain ps where ps: "read_object h0 v = Some ps" and rs: "read_all read_buckets h0 ps = Some sites"
    using read_entries_Some [of read_buckets h0 v sites] by (auto simp: read_sites_def)
  note o = read_object_append [OF ps, of "[Entries c, Entries w]"]
  let ?pure = "metrics_sites browser jsLabel sites \<lparr>MetricsData.cold = c, MetricsData.warm = w\<rparr>"
  let ?st = "metrics_sites_st browser jsLabel ps (length h0) (Suc (length h0)) (h0 @ [Entries c, Entries w])"
  have post: "metrics_post h0 ?pure ?st" by (rule metrics_sites_st_post [OF rs])
  show ?case
  proof (cases ?pure)
    case (Inl err)
    with post obtain h' where "?st = (Some (Inl err), h')" using metrics_post_Inl by metis
    with post Inl show ?thesis by (simp add: e js o)
  next
    case (Inr acc)
    with post have st: "?st = (Some (Inr ()), h0 @ [Entries (MetricsData.cold acc), Entries (MetricsData.warm acc)])"
      using metrics_post_Inr by metis
    have acc: "\<lparr>MetricsData.cold = MetricsData.cold acc, MetricsData.warm = MetricsData.warm acc\<rparr> = acc"
      by simp
    from Cons.IH [OF rest, of "MetricsData.cold acc" "MetricsData.warm acc"]
    show ?thesis by (simp add: e js o Inr st acc)
  qed
qed

lemma metrics_browsers_st_post:
  "read_all read_js h0 es = Some data \<Longrightarrow>
   metrics_post h0 (metrics_browsers data \<lparr>MetricsData.cold = c, MetricsData.warm = w\<rparr>)
     (metrics_browsers_st es (length h0) (Suc (length h0)) (h0 @ [Entries c, Entries w]))"
proof (induction es arbitrary: data c w)
  case Nil
  then show ?case by (simp add: read_all_Nil metrics_post_def)
next
  case (Cons e es)
  obtain browser v where e: "e = (browser, v)" by (cases e)
  from Cons.prems obtain jsb data' where s: "read_js h0 v = Some jsb"
    and rest: "read_all read_js h0 es = Some data'" and data: "data = (browser, jsb) # data'"
    by (auto simp: e read_all_Cons)
  from s obtain ps where ps: "read_object h0 v = Some ps" and rs: "read_all read_sites h0 ps = Some jsb"
    using read_entries_Some [of read_sites h0 v jsb] by (auto simp: read_js_def)
  note o = read_object_append [OF ps, of "[Entries c, Entries w]"]
  let ?pure = "metrics_js browser jsb \<lparr>MetricsData.cold = c, MetricsData.warm = w\<rparr>"
  let ?st = "metrics_js_st browser ps (length h0) (Suc (length h0)) (h0 @ [Entries c, Entries w])"
  have post: "metrics_post h0 ?pure ?st" by (rule metrics_js_st_post [OF rs])
  show ?case
  proof (cases ?pure)
    case (Inl err)
    with post obtain h' where "?st = (Some (Inl err), h')" using metrics_post_Inl by metis
    with post Inl show ?thesis by (simp add: e data o)
  next
    case (Inr acc)
    with post have st: "?st = (Some (Inr ()), h0 @ [Entries (MetricsData.cold acc), Entries (MetricsData.warm acc)])"
      using metrics_post_Inr by metis
    have acc: "\<lparr>MetricsData.cold = MetricsData.cold acc, MetricsData.warm = MetricsData.warm acc\<rparr> = acc"
      by simp
    from Cons.IH [OF rest, of "MetricsData.cold acc" "MetricsData.warm acc"]
    show ?thesis by (simp add: e data o Inr st acc)
  qed
qed

lemma calculateMetricsData_st_pure:
  assumes "read_tree h data = Some t"
  shows "\<exists>ext. calculateMetricsData_st data h = (Some (calculateMetricsData t), h @ ext)"
proof -
  from assms obtain ps where ps: "read_object h data = Some ps" and rs: "read_all read_js h ps = Some t"
    using read_entries_Some [of read_js h data t] by (auto simp: read_tree_def)
  note o = read_object_append [OF ps, of "[Entries [], Entries []]"]
  let ?pure = "metrics_browsers t \<lparr>MetricsData.cold = [], MetricsData.warm = []\<rparr>"
  let ?st = "metrics_browsers_st ps (length h) (Suc (length h)) (h @ [Entries [], Entries []])"
  have post: "metrics_post h ?pure ?st" by (rule metrics_browsers_st_post [OF rs])
  show ?thesis
  proof (cases ?pure)
    case (Inl err)
    with post obtain c w where "?st = (Some (Inl err), h @ [Entries c, Entries w])"
      by (cases ?st) (auto simp: metrics_post_def)
    with Inl show ?thesis
      by (simp add: calculateMetricsData_st_def calculateMetricsData_def alloc_def o)
  next
    case (Inr acc)
    with post have st: "?st = (Some (Inr ()), h @ [Entries (MetricsData.cold acc), Entries (MetricsData.warm acc)])"
      using metrics_post_Inr by metis
    with Inr show ?thesis
      by (simp add: calculateMetricsData_st_def calculateMetricsData_def alloc_def o entries_at_def
          nth_append)
  qed
qed

lemma alloc_pools_eq: "alloc_pools h = (refs_at (length h), h @ pool_cells empty_pools)"
  by (simp add: alloc_pools_def refs_at_def pool_cells_def empty_pools_def)

lemma push_pool:
  "push_nums (length hp) vs (hp @ pool_cells p) =
     hp @ pool_cells (p\<lparr>Pools.allFcps := Pools.allFcps p @ vs\<rparr>)"
  "push_nums (length hp + 1) vs (hp @ pool_cells p) =
     hp @ pool_cells (p\<lparr>Pools.allLoads := Pools.allLoads p @ vs\<rparr>)"
  "push_nums (length hp + 2) vs (hp @ pool_cells p) =
     hp @ pool_cells (p\<lparr>Pools.jsOnFcps := Pools.jsOnFcps p @ vs\<rparr>)"
  "push_nums (length hp + 3) vs (hp @ pool_cells p) =
     hp @ pool_cells (p\<lparr>Pools.jsOnLoads := Pools.jsOnLoads p @ vs\<rparr>)"
  "push_nums (length hp + 4) vs (hp @ pool_cells p) =
     hp @ pool_cells (p\<lparr>Pools.jsOffFcps := Pools.jsOffFcps p @ vs\<rparr>)"
  "push_nums (length hp + 5) vs (hp @ pool_cells p) =
     hp @ pool_cells (p\<lparr>Pools.jsOffLoads := Pools.jsOffLoads p @ vs\<rparr>)"
  "push_nums (length hp + 6) vs (hp @ pool_cells p) =
     hp @ pool_cells (p\<lparr>Pools.coldFcps := Pools.coldFcps p @ vs\<rparr>)"
  "push_nums (length hp + 7) vs (hp @ pool_cells p) =
     hp @ pool_cells (p\<lparr>Pools.coldLoads := Pools.coldLoads p @ vs\<rparr>)"
  "push_nums (length hp + 8) vs (hp @ pool_cells p) =
     hp @ pool_cells (p\<lparr>Pools.warmFcps := Pools.warmFcps p @ vs\<rparr>)"
  "push_nums (length hp + 9) vs (hp @ pool_cells p) =
     hp @ pool_cells (p\<lparr>Pools.warmLoads := Pools.warmLoads p @ vs\<rparr>)"
  "push_nums (Suc (length hp)) vs (hp @ pool_cells p) =
     hp @ pool_cells (p\<lparr>Pools.allLoads := Pools.allLoads p @ vs\<rparr>)"
  "push_nums (Suc (Suc (length hp))) vs (hp @ pool_cells p) =
     hp @ pool_cells (p\<lparr>Pools.jsOnFcps := Pools.jsOnFcps p @ vs\<rparr>)"
  by (simp_all add: push_nums_def pool_cells_def nth_append list_update_append eval_nat_numeral)

lemma pools_at_cells: "pools_at (hp @ pool_cells p) (refs_at (length hp)) = p"
  by (simp add: pools_at_def refs_at_def nums_at_def pool_cells_def nth_append eval_nat_numeral)

lemma collect_site_st_post:
  assumes "read_buckets h0 v = Some cb" and "hp = h0 @ pre"
  shows "pools_post hp (collect_site jsLabel cb p)
           (collect_site_st jsLabel v (refs_at (length hp)) (hp @ pool_cells p))"
proof -
  have c: "state_of (hp @ pool_cells p) v ''cold'' =
           Some (case CacheBuckets.cold cb of None \<Rightarrow> Inl TypeError | Some c \<Rightarrow> Inr c)"
    using state_of_append(1) [OF assms(1), of "pre @ pool_cells p"] by (simp add: assms(2))
  have w: "state_of (hp @ pool_cells p) v ''warm'' =
           Some (case CacheBuckets.warm cb of None \<Rightarrow> Inl TypeError | Some w \<Rightarrow> Inr w)"
    using state_of_append(2) [OF assms(1), of "pre @ pool_cells p"] by (simp add: assms(2))
  show ?thesis
  proof (cases "CacheBuckets.cold cb")
    case None
    then show ?thesis
      by (auto simp: pools_post_def collect_site_def collect_site_st_def c)
  next
    case cs: (Some cs)
    show ?thesis
    proof (cases "CacheBuckets.warm cb")
      case None
      then show ?thesis using cs
        by (auto simp: pools_post_def collect_site_def collect_site_st_def c w)
    next
      case (Some ws)
      then show ?thesis using cs
        by (simp add: pools_post_def collect_site_def collect_site_st_def c w Let_def
            refs_at_def push_pool)
    qed
  qed
qed

lemma pools_post_Inl: "pools_post hp (Inl e) res \<Longrightarrow> \<exists>p. res = (Some (Inl e), hp @ pool_cells p)"
  by (cases res) (auto simp: pools_post_def)

lemma pools_post_Inr: "pools_post hp (Inr p) res \<Longrightarrow> res = (Some (Inr ()), hp @ pool_cells p)"
  by (cases res) (auto simp: pools_post_def)

lemma collect_sites_st_post:
  "read_all read_buckets h0 es = Some sites \<Longrightarrow> hp = h0 @ pre \<Longrightarrow>
   pools_post hp (collect_sites jsLabel sites p)
     (collect_sites_st jsLabel es (refs_at (length hp)) (hp @ pool_cells p))"
proof (induction es arbitrary: sites p)
  case Nil
  then show ?case by (simp add: read_all_Nil pools_post_def)
next
  case (Cons e es)
  obtain url v where e: "e = (url, v)" by (cases e)
  from Cons.prems(1) obtain cb sites' where cb: "read_buckets h0 v = Some cb"
    and rest: "read_all read_buckets h0 es = Some sites'" and sites: "sites = (url, cb) # sites'"
    by (auto simp: e read_all_Cons)
  let ?pure = "collect_site jsLabel cb p"
  let ?st = "collect_site_st jsLabel v (refs_at (length hp)) (hp @ pool_cells p)"
  have post: "pools_post hp ?pure ?st" by (rule collect_site_st_post [OF cb Cons.prems(2)])
  show ?case
  proof (cases ?pure)
    case (Inl err)
    with post obtain q where "?st = (Some (Inl err), hp @ pool_cells q)"
      using pools_post_Inl by metis
    with Inl show ?thesis by (auto simp: e sites pools_post_def)
  next
    case (Inr q)
    with post have st: "?st = (Some (Inr ()), hp @ pool_cells q)"
      using pools_post_Inr by metis
    from Cons.IH [OF rest Cons.prems(2), of q]
    show ?thesis by (simp add: e sites Inr st)
  qed
qed

lemma collect_js_st_post:
  "read_all read_sites h0 es = Some jsBuckets \<Longrightarrow> hp = h0 @ pre \<Longrightarrow>
   pools_post hp (collect_js jsBuckets p)
     (collect_js_st es (refs_at (length hp)) (hp @ pool_cells p))"
proof (induction es arbitrary: jsBuckets p)
  case Nil
  then show ?case by (simp add: read_all_Nil pools_post_def)
next
  case (Cons e es)
  obtain jsLabel v where e: "e = (jsLabel, v)" by (cases e)
  from Cons.prems(1) obtain sites js' where s: "read_sites h0 v = Some sites"
    and rest: "read_all read_sites h0 es = Some js'" and js: "jsBuckets = (jsLabel, sites) # js'"
    by (auto simp: e read_all_Cons)
  from s obtain ps where ps: "read_object h0 v = Some ps" and rs: "read_all read_buckets h0 ps = Some sites"
    using read_entries_Some [of read_buckets h0 v sites] by (auto simp: read_sites_def)
  have o: "read_object (hp @ pool_cells p) v = Some ps"
    using read_object_append [OF ps, of "pre @ pool_cells p"] by (simp add: Cons.prems(2))
  let ?pure = "collect_sites jsLabel sites p"
  let ?st = "collect_sites_st jsLabel ps (refs_at (length hp)) (hp @ pool_cells p)"
  have post: "pools_post hp ?pure ?st" by (rule collect_sites_st_post [OF rs Cons.prems(2)])
  show ?case
  proof (cases ?pure)
    case (Inl err)
    with post obtain q where "?st = (Some (Inl err), hp @ pool_cells q)"
      using pools_post_Inl by metis
    with Inl show ?thesis by (auto simp: e js o pools_post_def)
  next
    case (Inr q)
    with post have st: "?st = (Some (Inr ()), hp @ pool_cells q)"
      using pools_post_Inr by metis
    from Cons.IH [OF rest Cons.prems(2), of q]
    show ?thesis by (simp add: e js o Inr st)
  qed
qed

lemma set_stats_at:
  "set_stats (length h0) b v (h0 @ StatsObj s # junk) = h0 @ StatsObj (AList.update b v s) # junk"
  by (simp add: set_stats_def nth_append list_update_append)

lemma update_fresh: "b \<notin> fst ` set s \<Longrightarrow> AList.update b v s = s @ [(b, v)]"
  by (induction s) auto

lemma update_last: "b \<notin> fst ` set s \<Longrightarrow> AList.update b v' (s @ [(b, v)]) = s @ [(b, v')]"
  by (induction s) auto

lemma stats_browsers_st_post:
  "read_all read_js h0 es = Some data \<Longrightarrow> distinct (map fst es) \<Longrightarrow>
   fst ` set s \<inter> fst ` set es = {} \<Longrightarrow>
   stats_post h0 s (calculateCumulativeStats data)
     (stats_browsers_st es (length h0) (h0 @ StatsObj s # junk))"
proof (induction es arbitrary: data s junk)
  case Nil
  then show ?case by (auto simp: read_all_Nil stats_post_def)
next
  case (Cons e es)
  obtain browser v where e: "e = (browser, v)" by (cases e)
  from Cons.prems(1) obtain jsb data' where jsb: "read_js h0 v = Some jsb"
    and rest: "read_all read_js h0 es = Some data'" and data: "data = (browser, jsb) # data'"
    by (auto simp: e read_all_Cons)
  from jsb obtain ps where ps: "read_object h0 v = Some ps" and rs: "read_all read_sites h0 ps = Some jsb"
    using read_entries_Some [of read_sites h0 v jsb] by (auto simp: read_js_def)
  from Cons.prems(3) have fresh: "browser \<notin> fst ` set s" by (auto simp: e)
  from Cons.prems(2) have d: "distinct (map fst es)" and nb: "browser \<notin> fst ` set es"
    by (auto simp: e)
  define hp where "hp = h0 @ StatsObj (s @ [(browser, zero_stats)]) # junk"
  have hp: "hp = h0 @ (StatsObj (s @ [(browser, zero_stats)]) # junk)" by (simp add: hp_def)
  have h1: "set_stats (length h0) browser zero_stats (h0 @ StatsObj s # junk) = hp"
    by (simp add: set_stats_at update_fresh [OF fresh] hp_def)
  have o: "read_object (hp @ pool_cells empty_pools) v = Some ps"
    using read_object_append [OF ps, of "(StatsObj (s @ [(browser, zero_stats)]) # junk) @ pool_cells empty_pools"]
    by (simp add: hp_def)
  let ?pure = "collect_js jsb empty_pools"
  let ?st = "collect_js_st ps (refs_at (length hp)) (hp @ pool_cells empty_pools)"
  have post: "pools_post hp ?pure ?st" by (rule collect_js_st_post [OF rs hp])
  have unfold: "stats_browsers_st (e # es) (length h0) (h0 @ StatsObj s # junk) =
      (case ?st of
         (Some (Inr u), h3) \<Rightarrow>
            stats_browsers_st es (length h0)
              (set_stats (length h0) browser (browser_stats (pools_at h3 (refs_at (length hp)))) h3)
       | (res, h3) \<Rightarrow> (res, h3))"
    by (simp add: e h1 alloc_pools_eq o)
  show ?case
  proof (cases ?pure)
    case (Inl err)
    with post obtain q where "?st = (Some (Inl err), hp @ pool_cells q)"
      using pools_post_Inl by metis
    with Inl show ?thesis unfolding unfold by (auto simp: data stats_post_def hp_def)
  next
    case (Inr q)
    with post have st: "?st = (Some (Inr ()), hp @ pool_cells q)"
      using pools_post_Inr by metis
    have h4: "set_stats (length h0) browser (browser_stats q) (hp @ pool_cells q) =
        h0 @ StatsObj (s @ [(browser, browser_stats q)]) # (junk @ pool_cells q)"
      by (simp add: hp_def set_stats_at update_last [OF fresh])
    have disj: "fst ` set (s @ [(browser, browser_stats q)]) \<inter> fst ` set es = {}"
      using Cons.prems(3) nb by (auto simp: e)
    from Cons.IH [OF rest d disj, of "junk @ pool_cells q"]
    have ih: "stats_post h0 (s @ [(browser, browser_stats q)]) (calculateCumulativeStats data')
        (stats_browsers_st es (length h0)
           (h0 @ StatsObj (s @ [(browser, browser_stats q)]) # (junk @ pool_cells q)))" .
    show ?thesis unfolding unfold
      using ih by (auto simp: st pools_at_cells h4 data Inr stats_post_def split: sum.splits)
  qed
qed

lemma calculateCumulativeStats_st_pure:
  assumes "read_tree h data = Some t"
  shows "\<exists>ext. calculateCumulativeStats_st data h = (Some (calculateCumulativeStats t), h @ ext)"
proof -
  from assms obtain ps where ps: "read_object h data = Some ps" and rs: "read_all read_js h ps = Some t"
    using read_entries_Some [of read_js h data t] by (auto simp: read_tree_def)
  from ps have d: "distinct (map fst ps)" by (auto simp: read_object_def split: option.splits cell.splits if_splits)
  note o = read_object_append [OF ps, of "[StatsObj []]"]
  let ?st = "stats_browsers_st ps (length h) (h @ StatsObj [] # [])"
  have post: "stats_post h [] (calculateCumulativeStats t) ?st"
    by (rule stats_browsers_st_post [OF rs d]) simp
  then obtain s' junk where snd: "snd ?st = h @ StatsObj s' # junk"
    and r: "case calculateCumulativeStats t of
           Inl e \<Rightarrow> fst ?st = Some (Inl e)
         | Inr rest \<Rightarrow> fst ?st = Some (Inr ()) \<and> s' = [] @ rest"
    by (auto simp: stats_post_def)
  show ?thesis
  proof (cases "calculateCumulativeStats t")
    case (Inl err)
    with r snd have "?st = (Some (Inl err), h @ StatsObj s' # junk)" by (cases ?st) simp
    with Inl show ?thesis by (simp add: calculateCumulativeStats_st_def alloc_def o)
  next
    case (Inr rest)
    with r snd have "?st = (Some (Inr ()), h @ StatsObj rest # junk)" by (cases ?st) simp
    with Inr show ?thesis
      by (simp add: calculateCumulativeStats_st_def alloc_def o stats_at_def nth_append)
  qed
qed

lemma read_all_map_of:
  "read_all rd h ps = Some xs \<Longrightarrow>
   map_of xs k = (case map_of ps k of None \<Rightarrow> None | Some v \<Rightarrow> rd h v)"
proof (induction ps arbitrary: xs)
  case Nil
  then show ?case by (simp add: read_all_Nil)
next
  case (Cons e ps)
  obtain k' v where e: "e = (k', v)" by (cases e)
  from Cons.prems obtain x xs' where x: "rd h v = Some x"
    and rest: "read_all rd h ps = Some xs'" and xs: "xs = (k', x) # xs'"
    by (auto simp: e read_all_Cons)
  from Cons.IH [OF rest] show ?case by (simp add: e xs x)
qed

lemma read_all_defined:
  "read_all rd h ps = Some xs \<Longrightarrow> map_of ps k = Some v \<Longrightarrow> \<exists>x. rd h v = Some x"
proof (induction ps arbitrary: xs)
  case Nil
  then show ?case by simp
next
  case (Cons e ps)
  obtain k' v' where e: "e = (k', v')" by (cases e)
  from Cons.prems(1) obtain x xs' where x: "rd h v' = Some x"
    and rest: "read_all rd h ps = Some xs'"
    by (auto simp: e read_all_Cons)
  show ?case
  proof (cases "k' = k")
    case True
    with Cons.prems(2) x show ?thesis by (simp add: e)
  next
    case False
    with Cons.prems(2) have "map_of ps k = Some v" by (simp add: e)
    from Cons.IH [OF rest this] show ?thesis .
  qed
qed

lemma calculateDeltas_st_pure:
  assumes "read_stats h stats = Some s"
  shows "calculateDeltas_st stats h = (Some (calculateDeltas s), h)"
proof -
  from assms obtain ps where ps: "read_object h stats = Some ps"
    and rs: "read_all read_browser_stats h ps = Some s"
    using read_entries_Some [of read_browser_stats h stats s] by (auto simp: read_stats_def)
  note m = read_all_map_of [OF rs]
  show ?thesis
  proof (cases "map_of ps ''Chrome''")
    case None
    then show ?thesis by (simp add: calculateDeltas_st_def calculateDeltas_def ps m)
  next
    case c: (Some cv)
    from read_all_defined [OF rs c] obtain c' where c': "read_browser_stats h cv = Some c'" ..
    show ?thesis
    proof (cases "map_of ps ''Firefox''")
      case None
      then show ?thesis by (simp add: calculateDeltas_st_def calculateDeltas_def ps m c c')
    next
      case f: (Some fv)
      from read_all_defined [OF rs f] obtain f' where f': "read_browser_stats h fv = Some f'" ..
      show ?thesis by (simp add: calculateDeltas_st_def calculateDeltas_def ps m c c' f f')
    qed
  qed
qed

lemma read_all_append:
  assumes "\<And>v x. rd h v = Some x \<Longrightarrow> rd (h @ ext) v = Some x"
  shows "read_all rd h ps = Some xs \<Longrightarrow> read_all rd (h @ ext) ps = Some xs"
  unfolding read_all_def
  by (rule those_map_mono) (auto simp: assms)

lemma read_entries_append:
  assumes "\<And>v x. rd h v = Some x \<Longrightarrow> rd (h @ ext) v = Some x"
  shows "read_entries rd h v = Some xs \<Longrightarrow> read_entries rd (h @ ext) v = Some xs"
proof -
  assume "read_entries rd h v = Some xs"
  then obtain ps where ps: "read_object h v = Some ps" and rs: "read_all rd h ps = Some xs"
    using read_entries_Some by blast
  from read_all_append [of rd h ext, OF assms rs] read_object_append [OF ps, of ext]
  show ?thesis by (simp add: read_entries_def)
qed

lemma read_state_append:
  "read_state h ps k = Some x \<Longrightarrow> read_state (h @ ext) ps k = Some x"
  by (auto simp: read_state_def read_samples_append split: option.splits)

lemma read_buckets_append:
  "read_buckets h v = Some cb \<Longrightarrow> read_buckets (h @ ext) v = Some cb"
proof -
  assume a: "read_buckets h v = Some cb"
  then obtain ps c w where ps: "read_object h v = Some ps"
    and c: "read_state h ps ''cold'' = Some c" and w: "read_state h ps ''warm'' = Some w"
    and cb: "cb = \<lparr>CacheBuckets.cold = c, CacheBuckets.warm = w\<rparr>"
    by (auto simp: read_buckets_def split: option.splits)
  from read_object_append [OF ps, of ext] read_state_append [OF c, of ext]
    read_state_append [OF w, of ext]
  show ?thesis by (simp add: read_buckets_def cb)
qed

lemma read_sites_append: "read_sites h v = Some x \<Longrightarrow> read_sites (h @ ext) v = Some x"
  unfolding read_sites_def by (rule read_entries_append) (rule read_buckets_append)

lemma read_js_append: "read_js h v = Some x \<Longrightarrow> read_js (h @ ext) v = Some x"
  unfolding read_js_def by (rule read_entries_append) (rule read_sites_append)

lemma read_tree_append: "read_tree h v = Some x \<Longrightarrow> read_tree (h @ ext) v = Some x"
  unfolding read_tree_def by (rule read_entries_append) (rule read_js_append)

text \<open>
  Claim C9. In every store that holds a result tree \<open>t\<close> at \<open>data\<close>,
  \<^verbatim>\<open>calculateMetricsData\<close> and \<^verbatim>\<open>calculateCumulativeStats\<close> return what the functions on
  values return for \<open>t\<close>, so a result that depends on the tree alone; they leave every
  cell that existed before the call as it was and only add cells behind them, and the
  tree read from the store after the call is \<open>t\<close> again. In every store that holds
  cumulative statistics \<open>s\<close> at \<open>stats\<close>, \<^verbatim>\<open>calculateDeltas\<close> returns what it returns
  for \<open>s\<close> and leaves the store as it was.
\<close>

theorem aggregation_is_pure:
  "(read_tree h data = Some t \<longrightarrow>
      (\<exists>ext. calculateMetricsData_st data h = (Some (calculateMetricsData t), h @ ext) \<and>
             read_tree (h @ ext) data = Some t)) \<and>
   (read_tree h data = Some t \<longrightarrow>
      (\<exists>ext. calculateCumulativeStats_st data h = (Some (calculateCumulativeStats t), h @ ext) \<and>
             read_tree (h @ ext) data = Some t)) \<and>
   (read_stats h stats = Some s \<longrightarrow>
      calculateDeltas_st stats h = (Some (calculateDeltas s), h))"
proof (intro conjI impI)
  assume t: "read_tree h data = Some t"
  from calculateMetricsData_st_pure [OF t] obtain ext
    where "calculateMetricsData_st data h = (Some (calculateMetricsData t), h @ ext)" ..
  with read_tree_append [OF t, of ext]
  show "\<exists>ext. calculateMetricsData_st data h = (Some (calculateMetricsData t), h @ ext) \<and>
             read_tree (h @ ext) data = Some t" by blast
next
  assume t: "read_tree h data = Some t"
  from calculateCumulativeStats_st_pure [OF t] obtain ext
    where "calculateCumulativeStats_st data h = (Some (calculateCumulativeStats t), h @ ext)" ..
  with read_tree_append [OF t, of ext]
  show "\<exists>ext. calculateCumulativeStats_st data h = (Some (calculateCumulativeStats t), h @ ext) \<and>
             read_tree (h @ ext) data = Some t" by blast
next
  assume "read_stats h stats = Some s"
  then show "calculateDeltas_st stats h = (Some (calculateDeltas s), h)"
    by (rule calculateDeltas_st_pure)
qed

lemma example_store_tree: "read_tree example_store (Ref 7) = Some store_tree"
  by (simp add: read_tree_def read_js_def read_sites_def read_entries_def read_all_def
      read_object_def read_buckets_def read_state_def read_samples_def read_sample_def
      read_field_def read_num_def cell_at_def example_store_def store_tree_def store_buckets_def
      store_samples_def)

lemma example_store_stats: "read_stats example_store (Ref 11) = Some store_stats"
  by (simp add: read_stats_def read_entries_def read_all_def read_object_def
      read_browser_stats_def read_group_def read_stat_def read_num_def cell_at_def
      example_store_def store_stats_def)

theorem aggregation_is_pure_witness:
  "read_tree example_store (Ref 7) = Some store_tree \<and>
   read_stats example_store (Ref 11) = Some store_stats \<and>
   (\<exists>ext. calculateMetricsData_st (Ref 7) example_store =
            (Some (calculateMetricsData store_tree), example_store @ ext)) \<and>
   (\<exists>ext. calculateCumulativeStats_st (Ref 7) example_store =
            (Some (calculateCumulativeStats store_tree), example_store @ ext)) \<and>
   calculateDeltas_st (Ref 11) example_store = (Some (calculateDeltas store_stats), example_store)"
  using aggregation_is_pure [of example_store "Ref 7" store_tree "Ref 11" store_stats]
    example_store_tree example_store_stats
  by blast

end
